theory Spec2Isabelle
  imports Main
begin

section \<open>The Xterm component of src/src/Xterm.tsx\<close>

text \<open>
  The component owns one xterm.js \<open>Terminal\<close> and wires it to its props with React
  effects. The embedding has three layers:
  \<^item> the values the component handles (props, refs, the objects of the xterm.js library);
  \<^item> the bodies of the effects of \<open>Xterm.tsx\<close>, one definition per effect function and
    one per cleanup function it returns;
  \<^item> the order in which React runs these effects when it commits a render: the cleanups
    of every effect whose dependency array changed, in the order the hooks are declared,
    then the bodies of those effects in the same order; every cleanup, in declaration
    order, when the component is removed.

  Every call that leaves the component (into xterm.js, into a callback prop, into the
  console) is recorded as an \<open>action\<close>, so that claims about "invoked once", "before" and
  "never" are claims about lists of actions.
\<close>

subsection \<open>Values\<close>

text \<open>Objects are identified by a number: two references are the same object exactly
  when the numbers agree (\<open>Object.is\<close> on the dependency arrays, \<open>===\<close> elsewhere).\<close>

type_synonym inst = nat
type_synonym addon = nat

text \<open>A prop typed as a function is still any JavaScript value at run time
  (\<open>handler: any\<close> in \<open>useBind\<close>): absent, null, some object that is not callable, or a
  function.\<close>

datatype jsval = Undefined | Null | Obj nat | Fn nat

fun is_function :: "jsval \<Rightarrow> bool" where
  "is_function (Fn f) = True"
| "is_function v = False"

fun truthy :: "jsval \<Rightarrow> bool" where
  "truthy Undefined = False"
| "truthy Null = False"
| "truthy v = True"

text \<open>The twelve event names of the \<open>eventName\<close> parameter of \<open>useBind\<close>.\<close>

datatype evname =
    OnBell | OnBinary | OnCursorMove | OnData | OnKey | OnLineFeed
  | OnRender | OnResize | OnScroll | OnSelectionChange | OnTitleChange | OnWriteParsed

text \<open>\<open>IProps\<close>. \<open>options\<close> is an object reference or absent; \<open>addons\<close> an array or
  absent.\<close>

record props =
  elem_id :: "string option"
  className :: "string option"
  options :: "nat option"
  addons :: "addon list option"
  onBell :: jsval
  onBinary :: jsval
  onCursorMove :: jsval
  onData :: jsval
  onKey :: jsval
  onLineFeed :: jsval
  onRender :: jsval
  onResize :: jsval
  onScroll :: jsval
  onSelectionChange :: jsval
  onTitleChange :: jsval
  onWriteParsed :: jsval
  customKeyEventHandler :: jsval
  onInit :: jsval
  onDispose :: jsval

text \<open>The handler the component passes to \<open>useBind\<close> for each event name
  (lines 228 to 239).\<close>

fun handler_of :: "props \<Rightarrow> evname \<Rightarrow> jsval" where
  "handler_of p OnBell = onBell p"
| "handler_of p OnBinary = onBinary p"
| "handler_of p OnCursorMove = onCursorMove p"
| "handler_of p OnData = onData p"
| "handler_of p OnKey = onKey p"
| "handler_of p OnLineFeed = onLineFeed p"
| "handler_of p OnRender = onRender p"
| "handler_of p OnResize = onResize p"
| "handler_of p OnScroll = onScroll p"
| "handler_of p OnSelectionChange = onSelectionChange p"
| "handler_of p OnTitleChange = onTitleChange p"
| "handler_of p OnWriteParsed = onWriteParsed p"

text \<open>The order of the twelve \<open>useBind\<close> calls in the component body.\<close>

definition all_events :: "evname list" where
  "all_events = [OnBell, OnBinary, OnCursorMove, OnData, OnKey, OnLineFeed,
     OnRender, OnResize, OnScroll, OnSelectionChange, OnTitleChange, OnWriteParsed]"

text \<open>The \<open>IDisposable\<close> returned by \<open>term[eventName](handler)\<close>: a fresh object that
  remembers the event, the terminal it listens on and the handler.\<close>

datatype binding = Binding (b_id: nat) (b_event: evname) (b_term: inst) (b_handler: jsval)

datatype error =
    ConstructError "nat option"
  | AddonError inst addon
  | DisposeError inst

text \<open>What the component does to the outside world.\<close>

datatype action =
    NewTerminal inst "nat option"
  | LoadAddon inst addon
  | AttachCustomKeyEventHandler inst jsval
  | Open inst
  | CallOnInit jsval "inst option"
  | CallOnDispose jsval inst
  | Dispose inst
  | ConsoleLog error
  | Subscribe binding
  | DisposeBinding binding

subsection \<open>The xterm.js library\<close>

text \<open>The library is outside the repository. The component depends on it only through
  which of its calls throw: the constructor (on the options it is given), \<open>loadAddon\<close>
  and \<open>dispose\<close>. Callback props are taken to return normally.\<close>

record lib =
  construct_throws :: "nat option \<Rightarrow> bool"
  loadAddon_throws :: "inst \<Rightarrow> addon \<Rightarrow> bool"
  dispose_throws :: "inst \<Rightarrow> bool"

definition xterm_dispose :: "lib \<Rightarrow> inst \<Rightarrow> error + unit" where
  "xterm_dispose l x = (if dispose_throws l x then Inl (DisposeError x) else Inr ())"

subsection \<open>The state of one mounted component\<close>

text \<open>
  \<open>divRef\<close> and \<open>xtermRef\<close> are the two \<open>useRef\<close> cells. For each \<open>useEffect\<close> React keeps
  the dependency array of the last render and the cleanup the effect returned when it
  last ran:
  \<^item> the terminal effect (lines 198 to 226), dependencies \<open>[options]\<close>; its cleanup is a
    closure over \<open>onDispose\<close> and \<open>xterm\<close>;
  \<^item> the twelve \<open>useBind\<close> effects, dependencies \<open>[handler]\<close>; the cleanup is a closure
    over \<open>eventBinding\<close>;
  \<^item> the \<open>onInit\<close> effect (lines 241 to 249), dependencies \<open>[xtermRef.current]\<close>, no
    cleanup.
  \<open>nextTerm\<close> and \<open>nextBinding\<close> number the objects the library allocates.
\<close>

record adapter =
  divRef :: bool
  xtermRef :: "inst option"
  termDeps :: "nat option"
  termDestroy :: "(jsval \<times> inst) option"
  bindDeps :: "evname \<Rightarrow> jsval"
  bindDestroy :: "evname \<Rightarrow> binding option"
  initDeps :: "inst option"
  nextTerm :: nat
  nextBinding :: nat

definition initial :: adapter where
  "initial = \<lparr> divRef = False, xtermRef = None, termDeps = None, termDestroy = None,
     bindDeps = (\<lambda>e. Undefined), bindDestroy = (\<lambda>e. None), initDeps = None,
     nextTerm = 0, nextBinding = 0 \<rparr>"

subsection \<open>The effects of Xterm.tsx\<close>

text \<open>\<open>addons.forEach((addon) => xterm.loadAddon(addon))\<close>: a load that throws ends the
  loop and the effect.\<close>

fun load_addons :: "lib \<Rightarrow> inst \<Rightarrow> addon list \<Rightarrow> action list \<times> error option" where
  "load_addons l x [] = ([], None)"
| "load_addons l x (a # as) =
     (if loadAddon_throws l x a then ([LoadAddon x a], Some (AddonError x a))
      else (case load_addons l x as of (acts, r) \<Rightarrow> (LoadAddon x a # acts, r)))"

text \<open>The body of the terminal effect, lines 199 to 225. It returns the actions, the new
  state and either the error thrown or the cleanup returned (none on the early return).\<close>

definition term_effect ::
  "lib \<Rightarrow> props \<Rightarrow> adapter \<Rightarrow> action list \<times> adapter \<times> (error + (jsval \<times> inst) option)" where
  "term_effect l p st =
     (if \<not> divRef st then ([], st, Inr None)
      else if construct_throws l (options p) then ([], st, Inl (ConstructError (options p)))
      else
        let xterm = nextTerm st;
            st1 = st\<lparr>nextTerm := Suc xterm\<rparr>;
            loaded = (case addons p of None \<Rightarrow> ([], None)
                      | Some as \<Rightarrow> load_addons l xterm as)
        in (case snd loaded of
              Some e \<Rightarrow> (NewTerminal xterm (options p) # fst loaded, st1, Inl e)
            | None \<Rightarrow>
                (NewTerminal xterm (options p) # fst loaded
                   @ (if truthy (customKeyEventHandler p)
                      then [AttachCustomKeyEventHandler xterm (customKeyEventHandler p)]
                      else [])
                   @ [Open xterm],
                 st1\<lparr>xtermRef := Some xterm\<rparr>,
                 Inr (Some (onDispose p, xterm)))))"

text \<open>The cleanup of the terminal effect, lines 218 to 224, for the \<open>onDispose\<close> and
  \<open>xterm\<close> it closed over. The \<open>try\<close>/\<open>catch\<close> turns the error of \<open>dispose\<close> into a
  \<open>console.log\<close>.\<close>

definition term_cleanup :: "lib \<Rightarrow> jsval \<Rightarrow> inst \<Rightarrow> adapter \<Rightarrow> action list \<times> adapter" where
  "term_cleanup l od xterm st =
     ((if is_function od then [CallOnDispose od xterm] else [])
        @ [Dispose xterm]
        @ (case xterm_dispose l xterm of Inl e \<Rightarrow> [ConsoleLog e] | Inr u \<Rightarrow> []),
      st\<lparr>xtermRef := None\<rparr>)"

text \<open>The body of the effect of \<open>useBind\<close>, lines 163 to 169.\<close>

definition useBind_effect ::
  "evname \<Rightarrow> jsval \<Rightarrow> adapter \<Rightarrow> action list \<times> adapter \<times> binding option" where
  "useBind_effect eventName handler st =
     (case xtermRef st of
        None \<Rightarrow> ([], st, None)
      | Some term \<Rightarrow>
          if \<not> is_function handler then ([], st, None)
          else
            let eventBinding = Binding (nextBinding st) eventName term handler
            in ([Subscribe eventBinding],
                st\<lparr>nextBinding := Suc (nextBinding st)\<rparr>,
                Some eventBinding))"

text \<open>Its cleanup, lines 167 and 168. An \<open>IDisposable\<close> is an object, so the test
  \<open>!eventBinding\<close> is false.\<close>

definition useBind_cleanup :: "binding \<Rightarrow> action list" where
  "useBind_cleanup eventBinding = [DisposeBinding eventBinding]"

text \<open>The body of the \<open>onInit\<close> effect, lines 243 to 245. The argument of \<open>onInit\<close> is
  whatever \<open>xtermRef.current\<close> holds when the effect runs.\<close>

definition init_effect :: "props \<Rightarrow> adapter \<Rightarrow> action list" where
  "init_effect p st =
     (if xtermRef st = None then []
      else if \<not> is_function (onInit p) then []
      else [CallOnInit (onInit p) (xtermRef st)])"

subsection \<open>React: committing a render\<close>

text \<open>Running the cleanup of the terminal effect, if the effect returned one.\<close>

definition destroy_term :: "lib \<Rightarrow> adapter \<Rightarrow> action list \<times> adapter" where
  "destroy_term l st =
     (case termDestroy st of
        None \<Rightarrow> ([], st)
      | Some c \<Rightarrow>
          (case term_cleanup l (fst c) (snd c) st of
             (acts, st') \<Rightarrow> (acts, st'\<lparr>termDestroy := None\<rparr>)))"

text \<open>Running the cleanups of the \<open>useBind\<close> effects selected by \<open>ch\<close>, in hook order.\<close>

fun destroy_binds :: "evname list \<Rightarrow> (evname \<Rightarrow> bool) \<Rightarrow> adapter \<Rightarrow> action list \<times> adapter" where
  "destroy_binds [] ch st = ([], st)"
| "destroy_binds (e # es) ch st =
     (if ch e then
        (case bindDestroy st e of
           None \<Rightarrow> destroy_binds es ch st
         | Some b \<Rightarrow>
             (case destroy_binds es ch (st\<lparr>bindDestroy := (bindDestroy st)(e := None)\<rparr>) of
                (acts, st') \<Rightarrow> (useBind_cleanup b @ acts, st')))
      else destroy_binds es ch st)"

text \<open>Running the bodies of the \<open>useBind\<close> effects selected by \<open>ch\<close>, in hook order, and
  storing the cleanup each one returns.\<close>

fun create_binds ::
  "evname list \<Rightarrow> (evname \<Rightarrow> bool) \<Rightarrow> props \<Rightarrow> adapter \<Rightarrow> action list \<times> adapter" where
  "create_binds [] ch p st = ([], st)"
| "create_binds (e # es) ch p st =
     (if ch e then
        (case useBind_effect e (handler_of p e) st of
           (a, st1, d) \<Rightarrow>
             (case create_binds es ch p (st1\<lparr>bindDestroy := (bindDestroy st1)(e := d)\<rparr>) of
                (acts, st') \<Rightarrow> (a @ acts, st')))
      else create_binds es ch p st)"

text \<open>
  One commit, as React 18 (the version the package is written for) runs passive effects
  outside the development-only double invocation of strict mode. The dependency arrays
  are computed while rendering, from the props and from the refs as they are before any
  effect of this commit runs, and compared with those of the render before; \<open>first\<close> is
  the mount, where every effect runs. First the cleanups of the effects whose
  dependencies changed run, in hook order, then the bodies of those effects, in hook
  order. An effect that throws ends the commit with the error: the later effects of the
  component do not run.
\<close>

definition commit ::
  "lib \<Rightarrow> props \<Rightarrow> bool \<Rightarrow> adapter \<Rightarrow> error option \<times> action list \<times> adapter" where
  "commit l p first st =
     (let chT = (first \<or> options p \<noteq> termDeps st);
          chB = (\<lambda>e. first \<or> handler_of p e \<noteq> bindDeps st e);
          chI = (first \<or> xtermRef st \<noteq> initDeps st);
          st0 = st\<lparr>termDeps := options p, bindDeps := handler_of p, initDeps := xtermRef st\<rparr>;
          d1 = (if chT then destroy_term l st0 else ([], st0));
          d2 = destroy_binds all_events chB (snd d1);
          c1 = (if chT then term_effect l p (snd d2) else ([], snd d2, Inr (termDestroy (snd d2))))
      in (case snd (snd c1) of
            Inl e \<Rightarrow> (Some e, fst d1 @ fst d2 @ fst c1, fst (snd c1))
          | Inr d \<Rightarrow>
              let c2 = create_binds all_events chB p ((fst (snd c1))\<lparr>termDestroy := d\<rparr>);
                  c3 = (if chI then init_effect p (snd c2) else [])
              in (None, fst d1 @ fst d2 @ fst c1 @ fst c2 @ c3, snd c2)))"

text \<open>Mounting: React attaches the \<open>div\<close> to \<open>divRef\<close>, then runs every effect.\<close>

definition mount :: "lib \<Rightarrow> props \<Rightarrow> error option \<times> action list \<times> adapter" where
  "mount l p = commit l p True (initial\<lparr>divRef := True\<rparr>)"

text \<open>A later render with props \<open>p\<close>.\<close>

definition update :: "lib \<Rightarrow> props \<Rightarrow> adapter \<Rightarrow> error option \<times> action list \<times> adapter" where
  "update l p st = commit l p False st"

text \<open>Removing the component: the \<open>div\<close> is detached, then every cleanup runs in hook
  order.\<close>

definition unmount :: "lib \<Rightarrow> adapter \<Rightarrow> action list \<times> adapter" where
  "unmount l st =
     (let d1 = destroy_term l (st\<lparr>divRef := False\<rparr>);
          d2 = destroy_binds all_events (\<lambda>e. True) (snd d1)
      in (fst d1 @ fst d2, snd d2))"

text \<open>A mounted component through a sequence of renders; the run stops at the first
  effect that throws.\<close>

fun updates :: "lib \<Rightarrow> props list \<Rightarrow> adapter \<Rightarrow> error option \<times> action list \<times> adapter" where
  "updates l [] st = (None, [], st)"
| "updates l (p # ps) st =
     (case update l p st of
        (Some e, acts, st') \<Rightarrow> (Some e, acts, st')
      | (None, acts, st') \<Rightarrow>
          (case updates l ps st' of (r, acts', st'') \<Rightarrow> (r, acts @ acts', st'')))"

definition run :: "lib \<Rightarrow> props \<Rightarrow> props list \<Rightarrow> error option \<times> action list \<times> adapter" where
  "run l p0 ps =
     (case mount l p0 of
        (Some e, acts, st) \<Rightarrow> (Some e, acts, st)
      | (None, acts, st) \<Rightarrow>
          (case updates l ps st of (r, acts', st') \<Rightarrow> (r, acts @ acts', st')))"

text \<open>The props of the render that constructed the terminal now in use: the last render
  whose \<open>options\<close> differ from those of the render before it.\<close>

fun ctor_props :: "props \<Rightarrow> props list \<Rightarrow> props" where
  "ctor_props c [] = c"
| "ctor_props c (p # ps) = ctor_props (if options p = options c then c else p) ps"

text \<open>The event an action subscribes to or unsubscribes from.\<close>

fun action_event :: "action \<Rightarrow> evname option" where
  "action_event (Subscribe b) = Some (b_event b)"
| "action_event (DisposeBinding b) = Some (b_event b)"
| "action_event a = None"

fun is_load :: "action \<Rightarrow> bool" where
  "is_load (LoadAddon x a) = True"
| "is_load a = False"

text \<open>A library that never throws, and props with nothing supplied.\<close>

definition quiet_lib :: lib where
  "quiet_lib = \<lparr> construct_throws = (\<lambda>opts. False), loadAddon_throws = (\<lambda>x a. False),
     dispose_throws = (\<lambda>x. False) \<rparr>"

definition no_props :: props where
  "no_props = \<lparr> elem_id = None, className = None, options = None, addons = None,
     onBell = Undefined, onBinary = Undefined, onCursorMove = Undefined, onData = Undefined,
     onKey = Undefined, onLineFeed = Undefined, onRender = Undefined, onResize = Undefined,
     onScroll = Undefined, onSelectionChange = Undefined, onTitleChange = Undefined,
     onWriteParsed = Undefined, customKeyEventHandler = Undefined, onInit = Undefined,
     onDispose = Undefined \<rparr>"

subsection \<open>Auxiliary notions for the statements\<close>

text \<open>Which step of the life cycle an action belongs to.\<close>

datatype kind = Teardown | Unsub | Construct | Sub | Init

fun kind_of :: "action \<Rightarrow> kind" where
  "kind_of (NewTerminal x opts) = Construct"
| "kind_of (LoadAddon x a) = Construct"
| "kind_of (AttachCustomKeyEventHandler x h) = Construct"
| "kind_of (Open x) = Construct"
| "kind_of (CallOnInit c v) = Init"
| "kind_of (CallOnDispose c x) = Teardown"
| "kind_of (Dispose x) = Teardown"
| "kind_of (ConsoleLog e) = Teardown"
| "kind_of (Subscribe b) = Sub"
| "kind_of (DisposeBinding b) = Unsub"

text \<open>
  The state of a mounted component after a render with props \<open>pl\<close>, when the terminal in
  use was constructed by a render with props \<open>pc\<close>: the container is attached, the
  terminal effect holds the cleanup closed over \<open>onDispose pc\<close> and the terminal, and each
  \<open>useBind\<close> effect holds a cleanup exactly when its handler is a function.
\<close>

definition live :: "props \<Rightarrow> props \<Rightarrow> adapter \<Rightarrow> bool" where
  "live pc pl st \<longleftrightarrow>
     divRef st \<and> options pl = options pc \<and> termDeps st = options pc
     \<and> bindDeps st = handler_of pl
     \<and> (\<exists>x. xtermRef st = Some x \<and> termDestroy st = Some (onDispose pc, x)
            \<and> nextTerm st = Suc x)
     \<and> (\<forall>e. case bindDestroy st e of
               None \<Rightarrow> \<not> is_function (handler_of pl e)
             | Some b \<Rightarrow> is_function (handler_of pl e) \<and> b_handler b = handler_of pl e
                         \<and> b_event b = e)"


fun is_attach :: "action \<Rightarrow> bool" where
  "is_attach (AttachCustomKeyEventHandler x h) = True"
| "is_attach a = False"

text \<open>Two sets of props for the concrete runs below; they differ in the identity of
  \<open>options\<close> only.\<close>

definition props_A :: props where
  "props_A = no_props\<lparr> options := Some 1, addons := Some [5, 6], onData := Fn 1,
     customKeyEventHandler := Fn 4, onInit := Fn 2, onDispose := Fn 3 \<rparr>"

definition props_B :: props where
  "props_B = props_A\<lparr> options := Some 2 \<rparr>"

section \<open>Lemmas about the effects and the commit\<close>

subsection \<open>The effects of \<open>useBind\<close>, run in hook order\<close>

lemma distinct_all_events: "distinct all_events"
  by (simp add: all_events_def)

lemma set_all_events: "e \<in> set all_events"
  by (cases e) (simp_all add: all_events_def)

lemma destroy_binds_state:
  "snd (destroy_binds es ch st) =
     st\<lparr>bindDestroy := (\<lambda>e. if e \<in> set es \<and> ch e then None else bindDestroy st e)\<rparr>"
proof (induction es arbitrary: st)
  case Nil
  show ?case by simp
next
  case (Cons e es)
  show ?case
    by (cases "bindDestroy st e") (auto simp: Cons.IH fun_eq_iff split_beta)
qed

lemma create_binds_frame:
  "create_binds es ch p st = (acts, st') \<Longrightarrow>
     divRef st' = divRef st \<and> xtermRef st' = xtermRef st \<and> termDeps st' = termDeps st
     \<and> termDestroy st' = termDestroy st \<and> bindDeps st' = bindDeps st
     \<and> initDeps st' = initDeps st \<and> nextTerm st' = nextTerm st
     \<and> nextBinding st \<le> nextBinding st'"
proof (induction es arbitrary: st acts st')
  case Nil
  then show ?case by simp
next
  case (Cons e es)
  show ?case
  proof (cases "ch e")
    case False
    with Cons show ?thesis by simp
  next
    case True
    obtain a st1 d where u: "useBind_effect e (handler_of p e) st = (a, st1, d)"
      by (metis prod_cases3)
    obtain acts2 st2 where c: "create_binds es ch p (st1\<lparr>bindDestroy := (bindDestroy st1)(e := d)\<rparr>) = (acts2, st2)"
      by (metis surj_pair)
    from Cons.prems True u c have s: "st' = st2" by simp
    from u have f: "divRef st1 = divRef st \<and> xtermRef st1 = xtermRef st \<and> termDeps st1 = termDeps st
     \<and> termDestroy st1 = termDestroy st \<and> bindDeps st1 = bindDeps st
     \<and> initDeps st1 = initDeps st \<and> nextTerm st1 = nextTerm st
     \<and> nextBinding st \<le> nextBinding st1"
      by (auto simp: useBind_effect_def Let_def split: option.splits if_splits)
    from Cons.IH[OF c] f s show ?thesis by simp
  qed
qed

lemma create_binds_other:
  "create_binds es ch p st = (acts, st') \<Longrightarrow> \<not> (e \<in> set es \<and> ch e) \<Longrightarrow>
     bindDestroy st' e = bindDestroy st e"
proof (induction es arbitrary: st acts st')
  case Nil
  then show ?case by simp
next
  case (Cons e0 es)
  show ?case
  proof (cases "ch e0")
    case False
    with Cons show ?thesis by auto
  next
    case True
    obtain a st1 d where u: "useBind_effect e0 (handler_of p e0) st = (a, st1, d)"
      by (metis prod_cases3)
    obtain acts2 st2 where c: "create_binds es ch p (st1\<lparr>bindDestroy := (bindDestroy st1)(e0 := d)\<rparr>) = (acts2, st2)"
      by (metis surj_pair)
    from Cons.prems True u c have s: "st' = st2" by simp
    from u have f: "bindDestroy st1 = bindDestroy st"
      by (auto simp: useBind_effect_def Let_def split: option.splits if_splits)
    from Cons.prems True have ne: "e \<noteq> e0" "\<not> (e \<in> set es \<and> ch e)" by auto
    from Cons.IH[OF c ne(2)] f s ne(1) show ?thesis by simp
  qed
qed

lemma create_binds_slot:
  "create_binds es ch p st = (acts, st') \<Longrightarrow> distinct es \<Longrightarrow> e \<in> set es \<Longrightarrow> ch e \<Longrightarrow>
     (case xtermRef st of
        None \<Rightarrow> bindDestroy st' e = None
      | Some x \<Rightarrow>
          if is_function (handler_of p e)
          then \<exists>k. nextBinding st \<le> k \<and> k < nextBinding st' \<and> bindDestroy st' e = Some (Binding k e x (handler_of p e))
          else bindDestroy st' e = None)"
proof (induction es arbitrary: st acts st')
  case Nil
  then show ?case by simp
next
  case (Cons e0 es)
  show ?case
  proof (cases "ch e0")
    case False
    with Cons.prems have "create_binds es ch p st = (acts, st')" "distinct es" "e \<in> set es" "ch e"
      by auto
    from Cons.IH[OF this] show ?thesis .
  next
    case True
    obtain a st1 d where u: "useBind_effect e0 (handler_of p e0) st = (a, st1, d)"
      by (metis prod_cases3)
    let ?s = "st1\<lparr>bindDestroy := (bindDestroy st1)(e0 := d)\<rparr>"
    obtain acts2 st2 where c: "create_binds es ch p ?s = (acts2, st2)"
      by (metis surj_pair)
    from Cons.prems True u c have s: "st' = st2" by simp
    note fr = create_binds_frame[OF c]
    show ?thesis
    proof (cases "e = e0")
      case True
      with Cons.prems have "\<not> (e \<in> set es \<and> ch e)" by auto
      from create_binds_other[OF c this] True have "bindDestroy st2 e = d" by simp
      with u fr s True show ?thesis
        by (auto simp: useBind_effect_def Let_def split: option.splits if_splits)
    next
      case False
      with Cons.prems have "distinct es" "e \<in> set es" "ch e" by auto
      from Cons.IH[OF c this] u s show ?thesis
        by (auto simp: useBind_effect_def Let_def split: option.splits if_splits)
    qed
  qed
qed

lemma create_binds_filter:
  "create_binds es ch p st = (acts, st') \<Longrightarrow> distinct es \<Longrightarrow>
     filter (\<lambda>a. action_event a = Some e) acts =
       (if e \<in> set es \<and> ch e then (case bindDestroy st' e of None \<Rightarrow> [] | Some b \<Rightarrow> [Subscribe b]) else [])"
proof (induction es arbitrary: st acts st')
  case Nil
  then show ?case by simp
next
  case (Cons e0 es)
  show ?case
  proof (cases "ch e0")
    case False
    with Cons show ?thesis by auto
  next
    case True
    obtain a st1 d where u: "useBind_effect e0 (handler_of p e0) st = (a, st1, d)"
      by (metis prod_cases3)
    let ?s = "st1\<lparr>bindDestroy := (bindDestroy st1)(e0 := d)\<rparr>"
    obtain acts2 st2 where c: "create_binds es ch p ?s = (acts2, st2)"
      by (metis surj_pair)
    from Cons.prems True u c have s: "st' = st2" "acts = a @ acts2" by simp_all
    from Cons.prems have d: "distinct es" "e0 \<notin> set es" by auto
    note ih = Cons.IH[OF c d(1)]
    from u have a: "a = (case d of None \<Rightarrow> [] | Some b \<Rightarrow> [Subscribe b])" "\<And>b. d = Some b \<Longrightarrow> b_event b = e0"
      by (auto simp: useBind_effect_def Let_def split: option.splits if_splits)
    show ?thesis
    proof (cases "e = e0")
      case True
      with d have "\<not> (e \<in> set es \<and> ch e)" by auto
      from create_binds_other[OF c this] True have "bindDestroy st2 e = d" by simp
      with ih s a True d \<open>ch e0\<close> show ?thesis
        by (auto split: option.splits)
    next
      case False
      with ih s a show ?thesis
        by (auto split: option.splits)
    qed
  qed
qed

lemma create_binds_only_subscribe:
  "create_binds es ch p st = (acts, st') \<Longrightarrow> a \<in> set acts \<Longrightarrow>
     \<exists>b. a = Subscribe b \<and> b_event b \<in> set es \<and> ch (b_event b)
        \<and> b_handler b = handler_of p (b_event b) \<and> is_function (b_handler b)
        \<and> xtermRef st = Some (b_term b)"
proof (induction es arbitrary: st acts st')
  case Nil
  then show ?case by simp
next
  case (Cons e0 es)
  show ?case
  proof (cases "ch e0")
    case False
    with Cons.prems have "create_binds es ch p st = (acts, st')" "a \<in> set acts"
      by auto
    from Cons.IH[OF this] show ?thesis by auto
  next
    case True
    obtain a0 st1 d where u: "useBind_effect e0 (handler_of p e0) st = (a0, st1, d)"
      by (metis prod_cases3)
    let ?s = "st1\<lparr>bindDestroy := (bindDestroy st1)(e0 := d)\<rparr>"
    obtain acts2 st2 where c: "create_binds es ch p ?s = (acts2, st2)"
      by (metis surj_pair)
    from Cons.prems True u c have s: "acts = a0 @ acts2" by simp
    from u have x: "xtermRef ?s = xtermRef st"
      by (auto simp: useBind_effect_def Let_def split: option.splits if_splits)
    show ?thesis
    proof (cases "a \<in> set a0")
      case True
      with u \<open>ch e0\<close> show ?thesis
        by (auto simp: useBind_effect_def Let_def split: option.splits if_splits)
    next
      case False
      with s Cons.prems have "a \<in> set acts2" by simp
      from Cons.IH[OF c this] x show ?thesis by auto
    qed
  qed
qed

subsection \<open>What each effect can do\<close>

lemma load_addons_kind: "a \<in> set (fst (load_addons l x as)) \<Longrightarrow> kind_of a = Construct"
  by (induction as arbitrary: a) (auto simp: split_beta split: if_splits)

lemma load_addons_ok:
  "snd (load_addons l x as) = None \<Longrightarrow> fst (load_addons l x as) = map (LoadAddon x) as"
  by (induction as) (auto simp: split_beta split: if_splits)

lemma load_addons_prefix:
  "\<exists>n. fst (load_addons l x as) = take n (map (LoadAddon x) as)"
proof (induction as)
  case Nil
  show ?case by simp
next
  case (Cons a as)
  then obtain n where n: "fst (load_addons l x as) = take n (map (LoadAddon x) as)" by blast
  show ?case
  proof (cases "loadAddon_throws l x a")
    case True
    then have "fst (load_addons l x (a # as)) = take (Suc 0) (map (LoadAddon x) (a # as))" by simp
    then show ?thesis by blast
  next
    case False
    then have "fst (load_addons l x (a # as)) = take (Suc n) (map (LoadAddon x) (a # as))"
      by (simp add: split_beta n)
    then show ?thesis by blast
  qed
qed

lemma term_effect_kind:
  "term_effect l p st = (acts, st', res) \<Longrightarrow> a \<in> set acts \<Longrightarrow> kind_of a = Construct"
  by (auto simp: term_effect_def Let_def dest: load_addons_kind split: if_splits option.splits)

lemma destroy_term_kind:
  "destroy_term l st = (acts, st') \<Longrightarrow> a \<in> set acts \<Longrightarrow> kind_of a = Teardown"
  by (auto simp: destroy_term_def term_cleanup_def split: if_splits option.splits sum.splits)

lemma destroy_binds_kind:
  "destroy_binds es ch st = (acts, st') \<Longrightarrow> a \<in> set acts \<Longrightarrow> kind_of a = Unsub"
proof (induction es arbitrary: st acts st')
  case Nil
  then show ?case by simp
next
  case (Cons e es)
  then show ?case
    by (auto simp: useBind_cleanup_def split: if_splits option.splits prod.splits)
qed

lemma create_binds_kind:
  "create_binds es ch p st = (acts, st') \<Longrightarrow> a \<in> set acts \<Longrightarrow> kind_of a = Sub"
  by (drule (1) create_binds_only_subscribe) auto

lemma init_effect_kind: "a \<in> set (init_effect p st) \<Longrightarrow> kind_of a = Init"
  by (auto simp: init_effect_def split: if_splits)

subsection \<open>The phases of a commit\<close>

text \<open>A commit is the cleanup of the terminal effect, the cleanups of the bindings, the
  body of the terminal effect and, unless that throws, the bodies of the binding effects
  and of the \<open>onInit\<close> effect.\<close>

lemma commit_decomp:
  assumes "commit l p first st = (r, acts, st')"
  obtains a1 s1 a2 s2 a3 s3 res where
    "(if first \<or> options p \<noteq> termDeps st
      then destroy_term l (st\<lparr>termDeps := options p, bindDeps := handler_of p, initDeps := xtermRef st\<rparr>)
      else ([], st\<lparr>termDeps := options p, bindDeps := handler_of p, initDeps := xtermRef st\<rparr>)) = (a1, s1)"
    "destroy_binds all_events (\<lambda>e. first \<or> handler_of p e \<noteq> bindDeps st e) s1 = (a2, s2)"
    "(if first \<or> options p \<noteq> termDeps st then term_effect l p s2
      else ([], s2, Inr (termDestroy s2))) = (a3, s3, res)"
    "case res of
       Inl e \<Rightarrow> r = Some e \<and> acts = a1 @ a2 @ a3 \<and> st' = s3
     | Inr d \<Rightarrow> (\<exists>a4 s4.
         create_binds all_events (\<lambda>e. first \<or> handler_of p e \<noteq> bindDeps st e) p
           (s3\<lparr>termDestroy := d\<rparr>) = (a4, s4)
         \<and> r = None
         \<and> acts = a1 @ a2 @ a3 @ a4
             @ (if first \<or> xtermRef st \<noteq> initDeps st then init_effect p s4 else [])
         \<and> st' = s4)"
proof -
  define st0 where "st0 = st\<lparr>termDeps := options p, bindDeps := handler_of p, initDeps := xtermRef st\<rparr>"
  define chT where "chT = (first \<or> options p \<noteq> termDeps st)"
  define chB where "chB = (\<lambda>e. first \<or> handler_of p e \<noteq> bindDeps st e)"
  define d1 where "d1 = (if chT then destroy_term l st0 else ([], st0))"
  define d2 where "d2 = destroy_binds all_events chB (snd d1)"
  define c1 where "c1 = (if chT then term_effect l p (snd d2) else ([], snd d2, Inr (termDestroy (snd d2))))"
  have c: "commit l p first st =
      (case snd (snd c1) of
         Inl e \<Rightarrow> (Some e, fst d1 @ fst d2 @ fst c1, fst (snd c1))
       | Inr d \<Rightarrow>
           (None,
            fst d1 @ fst d2 @ fst c1
              @ fst (create_binds all_events chB p ((fst (snd c1))\<lparr>termDestroy := d\<rparr>))
              @ (if first \<or> xtermRef st \<noteq> initDeps st
                 then init_effect p (snd (create_binds all_events chB p ((fst (snd c1))\<lparr>termDestroy := d\<rparr>)))
                 else []),
            snd (create_binds all_events chB p ((fst (snd c1))\<lparr>termDestroy := d\<rparr>))))"
    by (simp only: commit_def Let_def c1_def d2_def d1_def chB_def chT_def st0_def)
  have 1: "(if first \<or> options p \<noteq> termDeps st
      then destroy_term l (st\<lparr>termDeps := options p, bindDeps := handler_of p, initDeps := xtermRef st\<rparr>)
      else ([], st\<lparr>termDeps := options p, bindDeps := handler_of p, initDeps := xtermRef st\<rparr>)) = (fst d1, snd d1)"
    by (simp only: d1_def chT_def st0_def prod.collapse)
  have 2: "destroy_binds all_events (\<lambda>e. first \<or> handler_of p e \<noteq> bindDeps st e) (snd d1) = (fst d2, snd d2)"
    by (simp only: d2_def chB_def prod.collapse)
  have 3: "(if first \<or> options p \<noteq> termDeps st then term_effect l p (snd d2)
      else ([], snd d2, Inr (termDestroy (snd d2)))) = (fst c1, fst (snd c1), snd (snd c1))"
    by (simp only: c1_def chT_def prod.collapse)
  have 4: "case snd (snd c1) of
       Inl e \<Rightarrow> r = Some e \<and> acts = fst d1 @ fst d2 @ fst c1 \<and> st' = fst (snd c1)
     | Inr d \<Rightarrow> (\<exists>a4 s4.
         create_binds all_events (\<lambda>e. first \<or> handler_of p e \<noteq> bindDeps st e) p
           ((fst (snd c1))\<lparr>termDestroy := d\<rparr>) = (a4, s4)
         \<and> r = None
         \<and> acts = fst d1 @ fst d2 @ fst c1 @ a4
             @ (if first \<or> xtermRef st \<noteq> initDeps st then init_effect p s4 else [])
         \<and> st' = s4)"
  proof (cases "snd (snd c1)")
    case (Inl e)
    with assms c show ?thesis by simp
  next
    case (Inr d)
    obtain a4 s4 where cb: "create_binds all_events chB p ((fst (snd c1))\<lparr>termDestroy := d\<rparr>) = (a4, s4)"
      by (metis surj_pair)
    then have f: "fst (create_binds all_events chB p ((fst (snd c1))\<lparr>termDestroy := d\<rparr>)) = a4"
      "snd (create_binds all_events chB p ((fst (snd c1))\<lparr>termDestroy := d\<rparr>)) = s4"
      by simp_all
    from assms c Inr have "r = None \<and> acts = fst d1 @ fst d2 @ fst c1 @ a4
             @ (if first \<or> xtermRef st \<noteq> initDeps st then init_effect p s4 else []) \<and> st' = s4"
      by (auto simp: f)
    with cb Inr show ?thesis unfolding chB_def by simp
  qed
  from 1 2 3 4 show thesis by (rule that)
qed

subsection \<open>The invariant of a mounted component\<close>

lemma term_effect_Inr:
  assumes "divRef st" and "term_effect l p st = (a, s, Inr d)"
  shows "s = st\<lparr>nextTerm := Suc (nextTerm st), xtermRef := Some (nextTerm st)\<rparr>"
    and "d = Some (onDispose p, nextTerm st)"
    and "a = NewTerminal (nextTerm st) (options p)
           # (case addons p of None \<Rightarrow> [] | Some as \<Rightarrow> map (LoadAddon (nextTerm st)) as)
           @ (if truthy (customKeyEventHandler p)
              then [AttachCustomKeyEventHandler (nextTerm st) (customKeyEventHandler p)] else [])
           @ [Open (nextTerm st)]"
  using assms
  by (auto simp: term_effect_def Let_def load_addons_ok split: if_splits option.splits)

lemma commit_live:
  assumes c: "commit l p first st = (None, acts, st')"
    and pre: "if first then st = initial\<lparr>divRef := True\<rparr> else live pc pl st"
  shows "live (if first \<or> options p \<noteq> options pc then p else pc) p st'"
proof -
  let ?chB = "\<lambda>e. first \<or> handler_of p e \<noteq> bindDeps st e"
  from c obtain a1 s1 a2 s2 a3 s3 res where
    d1: "(if first \<or> options p \<noteq> termDeps st
      then destroy_term l (st\<lparr>termDeps := options p, bindDeps := handler_of p, initDeps := xtermRef st\<rparr>)
      else ([], st\<lparr>termDeps := options p, bindDeps := handler_of p, initDeps := xtermRef st\<rparr>)) = (a1, s1)"
    and d2: "destroy_binds all_events ?chB s1 = (a2, s2)"
    and c1: "(if first \<or> options p \<noteq> termDeps st then term_effect l p s2
      else ([], s2, Inr (termDestroy s2))) = (a3, s3, res)"
    and rest: "case res of
       Inl e \<Rightarrow> None = Some e \<and> acts = a1 @ a2 @ a3 \<and> st' = s3
     | Inr d \<Rightarrow> (\<exists>a4 s4.
         create_binds all_events ?chB p (s3\<lparr>termDestroy := d\<rparr>) = (a4, s4)
         \<and> None = (None :: error option)
         \<and> acts = a1 @ a2 @ a3 @ a4
             @ (if first \<or> xtermRef st \<noteq> initDeps st then init_effect p s4 else [])
         \<and> st' = s4)"
    by (rule commit_decomp)
  from rest obtain d a4 where res: "res = Inr d"
    and c2: "create_binds all_events ?chB p (s3\<lparr>termDestroy := d\<rparr>) = (a4, st')"
    by (cases res) auto
  from d2 have s2: "s2 = s1\<lparr>bindDestroy := (\<lambda>e. if e \<in> set all_events \<and> ?chB e then None else bindDestroy s1 e)\<rparr>"
    using destroy_binds_state[of all_events ?chB s1] by simp
  note fr = create_binds_frame[OF c2]
  show ?thesis
  proof (cases "first \<or> options p \<noteq> termDeps st")
    case True
    have dv: "divRef s2" and nt: "nextTerm s2 = nextTerm st" and bd: "bindDeps s2 = handler_of p"
      and td: "termDeps s2 = options p"
      using d1 s2 True pre
      by (auto simp: live_def initial_def destroy_term_def term_cleanup_def split: if_splits option.splits)
    from c1 True res have te: "term_effect l p s2 = (a3, s3, Inr d)" by simp
    note t = term_effect_Inr[OF dv te]
    have slots: "\<forall>e. ?chB e \<or> (bindDestroy s2 e = bindDestroy st e \<and> handler_of p e = handler_of pl e
        \<and> live pc pl st)"
      using d1 s2 True pre
      by (auto simp: live_def initial_def destroy_term_def term_cleanup_def set_all_events
          split: if_splits option.splits)
    have "\<forall>e. case bindDestroy st' e of
               None \<Rightarrow> \<not> is_function (handler_of p e)
             | Some b \<Rightarrow> is_function (handler_of p e) \<and> b_handler b = handler_of p e
                         \<and> b_event b = e"
    proof
      fix e
      show "case bindDestroy st' e of
               None \<Rightarrow> \<not> is_function (handler_of p e)
             | Some b \<Rightarrow> is_function (handler_of p e) \<and> b_handler b = handler_of p e
                         \<and> b_event b = e"
      proof (cases "?chB e")
        case True
        from create_binds_slot[OF c2 distinct_all_events set_all_events, of e] True t(1)
        show ?thesis by (auto split: if_splits)
      next
        case False
        then have "bindDestroy st' e = bindDestroy (s3\<lparr>termDestroy := d\<rparr>) e"
          using create_binds_other[OF c2, of e] by blast
        with slots False t(1) have "bindDestroy st' e = bindDestroy st e"
          and "handler_of p e = handler_of pl e" and lv: "live pc pl st" by auto
        moreover from lv have "case bindDestroy st e of
               None \<Rightarrow> \<not> is_function (handler_of pl e)
             | Some b \<Rightarrow> is_function (handler_of pl e) \<and> b_handler b = handler_of pl e
                         \<and> b_event b = e"
          unfolding live_def by blast
        ultimately show ?thesis by (simp split: option.splits)
      qed
    qed
    moreover have "divRef st' \<and> termDeps st' = options p \<and> bindDeps st' = handler_of p
      \<and> (\<exists>x. xtermRef st' = Some x \<and> termDestroy st' = Some (onDispose p, x) \<and> nextTerm st' = Suc x)"
      using fr t dv nt bd td by simp
    moreover from True pre have "(if first \<or> options p \<noteq> options pc then p else pc) = p"
      by (auto simp: live_def)
    ultimately show ?thesis unfolding live_def by simp
  next
    case False
    with pre have lv: "live pc pl st" and nf: "\<not> first" and op: "options p = options pc"
      by (auto simp: live_def split: if_splits)
    from d1 False have s1: "s1 = st\<lparr>termDeps := options p, bindDeps := handler_of p, initDeps := xtermRef st\<rparr>"
      by simp
    from c1 False res have s3: "s3 = s2" "d = termDestroy s2" by auto
    from lv obtain x where x: "xtermRef st = Some x" "termDestroy st = Some (onDispose pc, x)"
      "nextTerm st = Suc x"
      by (auto simp: live_def)
    have "\<forall>e. case bindDestroy st' e of
               None \<Rightarrow> \<not> is_function (handler_of p e)
             | Some b \<Rightarrow> is_function (handler_of p e) \<and> b_handler b = handler_of p e
                         \<and> b_event b = e"
    proof
      fix e
      show "case bindDestroy st' e of
               None \<Rightarrow> \<not> is_function (handler_of p e)
             | Some b \<Rightarrow> is_function (handler_of p e) \<and> b_handler b = handler_of p e
                         \<and> b_event b = e"
      proof (cases "?chB e")
        case True
        from create_binds_slot[OF c2 distinct_all_events set_all_events, of e] True s3 s2 s1 x
        show ?thesis by (auto split: if_splits)
      next
        case False
        then have "bindDestroy st' e = bindDestroy (s3\<lparr>termDestroy := d\<rparr>) e"
          using create_binds_other[OF c2, of e] by blast
        with False s3 s2 s1 have "bindDestroy st' e = bindDestroy st e" by simp
        moreover from False lv have "handler_of p e = handler_of pl e" by (simp add: live_def)
        moreover from lv have "case bindDestroy st e of
               None \<Rightarrow> \<not> is_function (handler_of pl e)
             | Some b \<Rightarrow> is_function (handler_of pl e) \<and> b_handler b = handler_of pl e
                         \<and> b_event b = e"
          unfolding live_def by blast
        ultimately show ?thesis by (simp split: option.splits)
      qed
    qed
    moreover have "divRef st' \<and> termDeps st' = options pc \<and> bindDeps st' = handler_of p
      \<and> (\<exists>x. xtermRef st' = Some x \<and> termDestroy st' = Some (onDispose pc, x) \<and> nextTerm st' = Suc x)"
      using fr s3 s2 s1 x lv op by (simp add: live_def)
    ultimately show ?thesis using op nf unfolding live_def by simp
  qed
qed

lemma mount_live: "mount l p = (None, acts, st) \<Longrightarrow> live p p st"
  using commit_live[of l p True "initial\<lparr>divRef := True\<rparr>" acts st p p]
  by (simp add: mount_def)

lemma update_live:
  "live pc pl st \<Longrightarrow> update l p st = (None, acts, st') \<Longrightarrow>
     live (if options p = options pc then pc else p) p st'"
  using commit_live[of l p False st acts st' pc pl]
  by (auto simp: update_def)

lemma updates_live:
  "live pc pl st \<Longrightarrow> updates l ps st = (None, acts, st') \<Longrightarrow>
     live (ctor_props pc ps) (last (pl # ps)) st'"
proof (induction ps arbitrary: pc pl st acts)
  case Nil
  then show ?case by simp
next
  case (Cons p ps)
  from Cons.prems(2) obtain a1 s1 a2 where
    u: "update l p st = (None, a1, s1)" and r: "updates l ps s1 = (None, a2, st')"
    by (auto split: prod.splits option.splits)
  from update_live[OF Cons.prems(1) u] have "live (if options p = options pc then pc else p) p s1" .
  from Cons.IH[OF this r] show ?case by simp
qed

lemma run_live:
  "run l p0 ps = (None, acts, st) \<Longrightarrow> live (ctor_props p0 ps) (last (p0 # ps)) st"
proof -
  assume "run l p0 ps = (None, acts, st)"
  then obtain a1 s1 a2 where
    m: "mount l p0 = (None, a1, s1)" and r: "updates l ps s1 = (None, a2, st)"
    by (auto simp: run_def split: prod.splits option.splits)
  from updates_live[OF mount_live[OF m] r] show ?thesis .
qed

subsection \<open>Props a commit does not read\<close>

lemma handler_of_customKey [simp]:
  "handler_of (p\<lparr>customKeyEventHandler := h\<rparr>) = handler_of p"
proof
  fix e show "handler_of (p\<lparr>customKeyEventHandler := h\<rparr>) e = handler_of p e"
    by (cases e) simp_all
qed

lemma create_binds_cong:
  "handler_of p = handler_of q \<Longrightarrow> create_binds es ch p st = create_binds es ch q st"
  by (induction es arbitrary: st) (simp_all split: prod.splits)

lemma init_effect_customKey [simp]:
  "init_effect (p\<lparr>customKeyEventHandler := h\<rparr>) st = init_effect p st"
  by (simp add: init_effect_def)

lemma commit_customKey:
  "\<not> first \<Longrightarrow> options p = termDeps st \<Longrightarrow>
     commit l (p\<lparr>customKeyEventHandler := h\<rparr>) first st = commit l p first st"
  by (simp add: commit_def Let_def create_binds_cong[of "p\<lparr>customKeyEventHandler := h\<rparr>" p])

subsection \<open>Where a commit calls \<open>onInit\<close> and subscribes\<close>

lemma commit_init_call:
  assumes "commit l p first st = (r, acts, st')" and "CallOnInit c v \<in> set acts"
  shows "is_function c \<and> c = onInit p \<and> v \<noteq> None \<and> v = xtermRef st'
         \<and> (first \<or> xtermRef st \<noteq> initDeps st)"
proof -
  from assms(1) obtain a1 s1 a2 s2 a3 s3 res where
    d1: "(if first \<or> options p \<noteq> termDeps st
      then destroy_term l (st\<lparr>termDeps := options p, bindDeps := handler_of p, initDeps := xtermRef st\<rparr>)
      else ([], st\<lparr>termDeps := options p, bindDeps := handler_of p, initDeps := xtermRef st\<rparr>)) = (a1, s1)"
    and d2: "destroy_binds all_events (\<lambda>e. first \<or> handler_of p e \<noteq> bindDeps st e) s1 = (a2, s2)"
    and c1: "(if first \<or> options p \<noteq> termDeps st then term_effect l p s2
      else ([], s2, Inr (termDestroy s2))) = (a3, s3, res)"
    and rest: "case res of
       Inl e \<Rightarrow> r = Some e \<and> acts = a1 @ a2 @ a3 \<and> st' = s3
     | Inr d \<Rightarrow> (\<exists>a4 s4.
         create_binds all_events (\<lambda>e. first \<or> handler_of p e \<noteq> bindDeps st e) p (s3\<lparr>termDestroy := d\<rparr>) = (a4, s4)
         \<and> r = None
         \<and> acts = a1 @ a2 @ a3 @ a4
             @ (if first \<or> xtermRef st \<noteq> initDeps st then init_effect p s4 else [])
         \<and> st' = s4)"
    by (rule commit_decomp)
  have k1: "\<And>a. a \<in> set a1 \<Longrightarrow> kind_of a = Teardown"
    using d1 destroy_term_kind by (fastforce split: if_splits)
  have k2: "\<And>a. a \<in> set a2 \<Longrightarrow> kind_of a = Unsub"
    using d2 destroy_binds_kind by blast
  have k3: "\<And>a. a \<in> set a3 \<Longrightarrow> kind_of a = Construct"
    using c1 term_effect_kind by (fastforce split: if_splits)
  have n: "CallOnInit c v \<notin> set (a1 @ a2 @ a3)"
    using k1 k2 k3 by fastforce
  show ?thesis
  proof (cases res)
    case (Inl e)
    with rest n assms(2) show ?thesis by simp
  next
    case (Inr d)
    with rest obtain a4 where
      c2: "create_binds all_events (\<lambda>e. first \<or> handler_of p e \<noteq> bindDeps st e) p (s3\<lparr>termDestroy := d\<rparr>) = (a4, st')"
      and acts: "acts = a1 @ a2 @ a3 @ a4
             @ (if first \<or> xtermRef st \<noteq> initDeps st then init_effect p st' else [])"
      by auto
    have "CallOnInit c v \<notin> set a4"
      using create_binds_kind[OF c2] by fastforce
    with n acts assms(2) have "CallOnInit c v \<in> set (init_effect p st')"
      and "first \<or> xtermRef st \<noteq> initDeps st"
      by (auto split: if_splits)
    then show ?thesis
      by (auto simp: init_effect_def split: if_splits)
  qed
qed

lemma commit_subscribe:
  assumes "commit l p first st = (r, acts, st')" and "Subscribe b \<in> set acts"
  shows "is_function (handler_of p (b_event b)) \<and> b_handler b = handler_of p (b_event b)
         \<and> (first \<or> handler_of p (b_event b) \<noteq> bindDeps st (b_event b))"
proof -
  from assms(1) obtain a1 s1 a2 s2 a3 s3 res where
    d1: "(if first \<or> options p \<noteq> termDeps st
      then destroy_term l (st\<lparr>termDeps := options p, bindDeps := handler_of p, initDeps := xtermRef st\<rparr>)
      else ([], st\<lparr>termDeps := options p, bindDeps := handler_of p, initDeps := xtermRef st\<rparr>)) = (a1, s1)"
    and d2: "destroy_binds all_events (\<lambda>e. first \<or> handler_of p e \<noteq> bindDeps st e) s1 = (a2, s2)"
    and c1: "(if first \<or> options p \<noteq> termDeps st then term_effect l p s2
      else ([], s2, Inr (termDestroy s2))) = (a3, s3, res)"
    and rest: "case res of
       Inl e \<Rightarrow> r = Some e \<and> acts = a1 @ a2 @ a3 \<and> st' = s3
     | Inr d \<Rightarrow> (\<exists>a4 s4.
         create_binds all_events (\<lambda>e. first \<or> handler_of p e \<noteq> bindDeps st e) p (s3\<lparr>termDestroy := d\<rparr>) = (a4, s4)
         \<and> r = None
         \<and> acts = a1 @ a2 @ a3 @ a4
             @ (if first \<or> xtermRef st \<noteq> initDeps st then init_effect p s4 else [])
         \<and> st' = s4)"
    by (rule commit_decomp)
  have k1: "\<And>a. a \<in> set a1 \<Longrightarrow> kind_of a = Teardown"
    using d1 destroy_term_kind by (fastforce split: if_splits)
  have k2: "\<And>a. a \<in> set a2 \<Longrightarrow> kind_of a = Unsub"
    using d2 destroy_binds_kind by blast
  have k3: "\<And>a. a \<in> set a3 \<Longrightarrow> kind_of a = Construct"
    using c1 term_effect_kind by (fastforce split: if_splits)
  have n: "Subscribe b \<notin> set (a1 @ a2 @ a3)"
    using k1 k2 k3 by fastforce
  show ?thesis
  proof (cases res)
    case (Inl e)
    with rest n assms(2) show ?thesis by simp
  next
    case (Inr d)
    with rest obtain a4 where
      c2: "create_binds all_events (\<lambda>e. first \<or> handler_of p e \<noteq> bindDeps st e) p (s3\<lparr>termDestroy := d\<rparr>) = (a4, st')"
      and acts: "acts = a1 @ a2 @ a3 @ a4
             @ (if first \<or> xtermRef st \<noteq> initDeps st then init_effect p st' else [])"
      by auto
    have "Subscribe b \<notin> set (init_effect p st')"
      using init_effect_kind[of "Subscribe b" p st'] by auto
    with n acts assms(2) have "Subscribe b \<in> set a4"
      by (auto split: if_splits)
    from create_binds_only_subscribe[OF c2 this] show ?thesis by auto
  qed
qed

subsection \<open>Mount and unmount, unfolded\<close>

lemma destroy_binds_empty:
  "\<forall>e. bindDestroy st e = None \<Longrightarrow> destroy_binds es ch st = ([], st)"
  by (induction es) simp_all

lemma kind_event_None:
  "kind_of a = Teardown \<or> kind_of a = Construct \<or> kind_of a = Init \<Longrightarrow> action_event a = None"
  by (cases a) simp_all

lemma is_load_kind: "is_load a \<Longrightarrow> kind_of a = Construct"
  by (cases a) simp_all

lemma is_attach_kind: "is_attach a \<Longrightarrow> kind_of a = Construct"
  by (cases a) simp_all


lemma destroy_binds_filter:
  "distinct es \<Longrightarrow> (\<forall>e' b. bindDestroy st e' = Some b \<longrightarrow> b_event b = e') \<Longrightarrow>
   filter (\<lambda>a. action_event a = Some e) (fst (destroy_binds es ch st)) =
     (if e \<in> set es \<and> ch e
      then (case bindDestroy st e of None \<Rightarrow> [] | Some b \<Rightarrow> [DisposeBinding b]) else [])"
proof (induction es arbitrary: st)
  case Nil
  show ?case by simp
next
  case (Cons e0 es)
  from Cons.prems have d: "distinct es" and n: "e0 \<notin> set es" by simp_all
  show ?case
  proof (cases "ch e0")
    case False
    with Cons.IH[OF d Cons.prems(2)] show ?thesis by auto
  next
    case True
    show ?thesis
    proof (cases "bindDestroy st e0")
      case None
      with True Cons.IH[OF d Cons.prems(2)] show ?thesis by auto
    next
      case (Some b)
      let ?s = "st\<lparr>bindDestroy := (bindDestroy st)(e0 := None)\<rparr>"
      have inv: "\<forall>e' b. bindDestroy ?s e' = Some b \<longrightarrow> b_event b = e'"
        using Cons.prems(2) by simp
      from Cons.prems(2) Some have be: "b_event b = e0" by blast
      from Cons.IH[OF d inv] True Some n be show ?thesis
        by (auto simp: split_beta useBind_cleanup_def)
    qed
  qed
qed

lemma mount_eq:
  "mount l p =
     (let st0 = initial\<lparr>divRef := True, termDeps := options p, bindDeps := handler_of p\<rparr>;
          c1 = term_effect l p st0
      in (case snd (snd c1) of
            Inl e \<Rightarrow> (Some e, fst c1, fst (snd c1))
          | Inr d \<Rightarrow>
              let c2 = create_binds all_events (\<lambda>e. True) p ((fst (snd c1))\<lparr>termDestroy := d\<rparr>)
              in (None, fst c1 @ fst c2 @ init_effect p (snd c2), snd c2)))"
proof -
  let ?s = "initial\<lparr>divRef := True, termDeps := options p, bindDeps := handler_of p\<rparr>"
  have 0: "(initial\<lparr>divRef := True\<rparr>)\<lparr>termDeps := options p, bindDeps := handler_of p,
             initDeps := xtermRef (initial\<lparr>divRef := True\<rparr>)\<rparr> = ?s"
    by (simp add: initial_def)
  have 1: "destroy_term l ?s = ([], ?s)"
    by (simp add: destroy_term_def initial_def)
  have 2: "destroy_binds all_events (\<lambda>e. True) ?s = ([], ?s)"
    by (rule destroy_binds_empty) (simp add: initial_def)
  show ?thesis
    unfolding mount_def commit_def Let_def 0
    by (simp add: 1 2 cong: sum.case_cong if_cong)
qed

lemma unmount_eq:
  assumes "termDestroy st = Some (od, x)"
  shows "unmount l st =
     (fst (term_cleanup l od x st)
        @ fst (destroy_binds all_events (\<lambda>e. True)
                 (st\<lparr>divRef := False, xtermRef := None, termDestroy := None\<rparr>)),
      snd (destroy_binds all_events (\<lambda>e. True)
                 (st\<lparr>divRef := False, xtermRef := None, termDestroy := None\<rparr>)))"
proof -
  have 1: "destroy_term l (st\<lparr>divRef := False\<rparr>)
      = (fst (term_cleanup l od x st), st\<lparr>divRef := False, xtermRef := None, termDestroy := None\<rparr>)"
    using assms by (simp add: destroy_term_def term_cleanup_def)
  show ?thesis
    unfolding unmount_def Let_def by (simp add: 1)
qed

subsection \<open>The actions of a commit, by kind\<close>

lemma k_destroy_binds: "a \<in> set (fst (destroy_binds es ch st)) \<Longrightarrow> kind_of a = Unsub"
  using destroy_binds_kind[of es ch st "fst (destroy_binds es ch st)" "snd (destroy_binds es ch st)" a]
  by simp

lemma k_create_binds: "a \<in> set (fst (create_binds es ch p st)) \<Longrightarrow> kind_of a = Sub"
  using create_binds_kind[of es ch p st "fst (create_binds es ch p st)" "snd (create_binds es ch p st)" a]
  by simp

lemma term_cleanup_acts:
  "fst (term_cleanup l od x st) =
     (if is_function od then [CallOnDispose od x] else [])
       @ Dispose x # (if dispose_throws l x then [ConsoleLog (DisposeError x)] else [])"
  by (simp add: term_cleanup_def xterm_dispose_def)

lemma term_effect_indep:
  assumes "divRef s = divRef s'" and "nextTerm s = nextTerm s'"
  shows "fst (term_effect l p s) = fst (term_effect l p s')"
    and "snd (snd (term_effect l p s)) = snd (snd (term_effect l p s'))"
  using assms by (simp_all add: term_effect_def Let_def split: option.splits)

lemma destroy_term_acts_Some:
  "termDestroy st = Some (od, x) \<Longrightarrow> fst (destroy_term l st) = fst (term_cleanup l od x st)"
  by (simp add: destroy_term_def split_beta)


lemma destroy_term_acts_indep:
  "termDestroy s = termDestroy s' \<Longrightarrow> fst (destroy_term l s) = fst (destroy_term l s')"
  by (simp add: destroy_term_def term_cleanup_def split_beta split: option.splits)

lemma commit_parts:
  assumes c: "commit l p first st = (r, acts, st')"
  obtains a2 a3 a4 a5 where
    "acts = (if first \<or> options p \<noteq> termDeps st then fst (destroy_term l st) else [])
            @ a2 @ a3 @ a4 @ a5"
    "\<forall>a\<in>set a2. kind_of a = Unsub" "\<forall>a\<in>set a3. kind_of a = Construct"
    "\<forall>a\<in>set a4. kind_of a = Sub" "\<forall>a\<in>set a5. kind_of a = Init"
    "\<not> (first \<or> options p \<noteq> termDeps st) \<longrightarrow> a3 = [] \<and> r = None \<and> nextTerm st' = nextTerm st"
    "first \<or> options p \<noteq> termDeps st \<longrightarrow> divRef st \<longrightarrow> r = None \<longrightarrow>
          nextTerm st' = Suc (nextTerm st) \<and> xtermRef st' = Some (nextTerm st)"
    "first \<or> options p \<noteq> termDeps st \<longrightarrow>
          a3 = fst (term_effect l p st)
          \<and> r = (case snd (snd (term_effect l p st)) of Inl e \<Rightarrow> Some e | Inr d \<Rightarrow> None)"
proof -
  let ?chB = "\<lambda>e. first \<or> handler_of p e \<noteq> bindDeps st e"
  let ?chT = "first \<or> options p \<noteq> termDeps st"
  let ?st0 = "st\<lparr>termDeps := options p, bindDeps := handler_of p, initDeps := xtermRef st\<rparr>"
  from c obtain a1 s1 a2 s2 a3 s3 res where
    d1: "(if ?chT then destroy_term l ?st0 else ([], ?st0)) = (a1, s1)"
    and d2: "destroy_binds all_events ?chB s1 = (a2, s2)"
    and c1: "(if ?chT then term_effect l p s2 else ([], s2, Inr (termDestroy s2))) = (a3, s3, res)"
    and rest: "case res of
       Inl e \<Rightarrow> r = Some e \<and> acts = a1 @ a2 @ a3 \<and> st' = s3
     | Inr d \<Rightarrow> (\<exists>a4 s4.
         create_binds all_events ?chB p (s3\<lparr>termDestroy := d\<rparr>) = (a4, s4)
         \<and> r = None
         \<and> acts = a1 @ a2 @ a3 @ a4
             @ (if first \<or> xtermRef st \<noteq> initDeps st then init_effect p s4 else [])
         \<and> st' = s4)"
    by (rule commit_decomp)
  have "fst (destroy_term l ?st0) = fst (destroy_term l st)"
    by (rule destroy_term_acts_indep) simp
  with d1 have a1: "a1 = (if ?chT then fst (destroy_term l st) else [])"
    by (auto split: if_splits)
  have s1: "divRef s1 = divRef st \<and> nextTerm s1 = nextTerm st"
    using d1 by (auto simp: destroy_term_def term_cleanup_def split: if_splits option.splits)
  have s2: "divRef s2 = divRef st \<and> nextTerm s2 = nextTerm st"
    using d2 s1 destroy_binds_state[of all_events ?chB s1] by simp
  have k2: "\<forall>a\<in>set a2. kind_of a = Unsub"
    using destroy_binds_kind[OF d2] by blast
  have k3: "\<forall>a\<in>set a3. kind_of a = Construct"
  proof (cases ?chT)
    case True
    with c1 have "term_effect l p s2 = (a3, s3, res)" by simp
    from term_effect_kind[OF this] show ?thesis by blast
  next
    case False
    with c1 show ?thesis by simp
  qed
  have n3: "\<not> ?chT \<longrightarrow> a3 = [] \<and> s3 = s2 \<and> (\<exists>d. res = Inr d)"
    using c1 by auto
  have t3: "?chT \<longrightarrow> a3 = fst (term_effect l p st) \<and> snd (snd (term_effect l p st)) = res"
  proof
    assume ?chT
    with c1 have "term_effect l p s2 = (a3, s3, res)" by simp
    then have "a3 = fst (term_effect l p s2)" "res = snd (snd (term_effect l p s2))" by simp_all
    with term_effect_indep[of s2 st l p] s2
    show "a3 = fst (term_effect l p st) \<and> snd (snd (term_effect l p st)) = res" by simp
  qed
  show thesis
  proof (cases res)
    case (Inl e)
    with rest have acts: "acts = a1 @ a2 @ a3 @ [] @ []" and r: "r = Some e" by simp_all
    from n3 Inl have t: ?chT by auto
    have k0: "\<forall>a\<in>set ([]::action list). kind_of a = Sub" "\<forall>a\<in>set ([]::action list). kind_of a = Init"
      by simp_all
    show ?thesis
    proof (rule that[of a2 a3 "[]" "[]"])
      show "acts = (if ?chT then fst (destroy_term l st) else []) @ a2 @ a3 @ [] @ []"
        using acts a1 by simp
      show "\<not> ?chT \<longrightarrow> a3 = [] \<and> r = None \<and> nextTerm st' = nextTerm st"
        using t by simp
      show "?chT \<longrightarrow> divRef st \<longrightarrow> r = None \<longrightarrow>
          nextTerm st' = Suc (nextTerm st) \<and> xtermRef st' = Some (nextTerm st)"
        using r by simp
      show "?chT \<longrightarrow> a3 = fst (term_effect l p st)
          \<and> r = (case snd (snd (term_effect l p st)) of Inl e \<Rightarrow> Some e | Inr d \<Rightarrow> None)"
        using t3 Inl r by simp
    qed (use k2 k3 k0 in blast)+
  next
    case (Inr d)
    with rest obtain a4 where
      c2: "create_binds all_events ?chB p (s3\<lparr>termDestroy := d\<rparr>) = (a4, st')"
      and r: "r = None"
      and acts: "acts = a1 @ a2 @ a3 @ a4
             @ (if first \<or> xtermRef st \<noteq> initDeps st then init_effect p st' else [])"
      by auto
    let ?a5 = "if first \<or> xtermRef st \<noteq> initDeps st then init_effect p st' else []"
    have k4: "\<forall>a\<in>set a4. kind_of a = Sub"
      using create_binds_kind[OF c2] by blast
    have k5: "\<forall>a\<in>set ?a5. kind_of a = Init"
      using init_effect_kind by auto
    note fr = create_binds_frame[OF c2]
    have same: "\<not> ?chT \<longrightarrow> nextTerm st' = nextTerm st"
      using n3 fr s2 by auto
    have changed: "?chT \<longrightarrow> divRef st \<longrightarrow> nextTerm st' = Suc (nextTerm st) \<and> xtermRef st' = Some (nextTerm st)"
    proof (intro impI)
      assume t: ?chT and dv: "divRef st"
      with c1 Inr have te: "term_effect l p s2 = (a3, s3, Inr d)" by simp
      from dv s2 have "divRef s2" by simp
      from term_effect_Inr(1)[OF this te] fr s2
      show "nextTerm st' = Suc (nextTerm st) \<and> xtermRef st' = Some (nextTerm st)" by simp
    qed
    show ?thesis
    proof (rule that[of a2 a3 a4 ?a5])
      show "acts = (if ?chT then fst (destroy_term l st) else []) @ a2 @ a3 @ a4 @ ?a5"
        using acts a1 by simp
      show "\<not> ?chT \<longrightarrow> a3 = [] \<and> r = None \<and> nextTerm st' = nextTerm st"
        using n3 r same by simp
      show "?chT \<longrightarrow> divRef st \<longrightarrow> r = None \<longrightarrow>
          nextTerm st' = Suc (nextTerm st) \<and> xtermRef st' = Some (nextTerm st)"
        using changed by simp
      show "?chT \<longrightarrow> a3 = fst (term_effect l p st)
          \<and> r = (case snd (snd (term_effect l p st)) of Inl e \<Rightarrow> Some e | Inr d \<Rightarrow> None)"
        using t3 Inr r by simp
    qed (use k2 k3 k4 k5 in blast)+
  qed
qed

subsection \<open>Teardown\<close>

lemma unmount_parts:
  assumes "termDestroy st = Some (od, x)"
  shows "\<exists>a2. fst (unmount l st) = fst (term_cleanup l od x st) @ a2
           \<and> (\<forall>a\<in>set a2. kind_of a = Unsub)"
    and "xtermRef (snd (unmount l st)) = None"
    and "termDestroy (snd (unmount l st)) = None"
    and "bindDestroy (snd (unmount l st)) e = None"
proof -
  let ?s = "st\<lparr>divRef := False, xtermRef := None, termDestroy := None\<rparr>"
  note eq = unmount_eq[OF assms, of l]
  have "fst (unmount l st) = fst (term_cleanup l od x st) @ fst (destroy_binds all_events (\<lambda>e. True) ?s)"
    using eq by simp
  then show "\<exists>a2. fst (unmount l st) = fst (term_cleanup l od x st) @ a2
           \<and> (\<forall>a\<in>set a2. kind_of a = Unsub)"
    using k_destroy_binds by blast
  have s: "snd (unmount l st) = snd (destroy_binds all_events (\<lambda>e. True) ?s)"
    using eq by simp
  show "xtermRef (snd (unmount l st)) = None" "termDestroy (snd (unmount l st)) = None"
    "bindDestroy (snd (unmount l st)) e = None"
    unfolding s by (simp_all add: destroy_binds_state set_all_events)
qed









subsection \<open>Construction\<close>

lemma load_addons_error:
  "snd (load_addons l x as) = Some e \<Longrightarrow> \<exists>a\<in>set as. e = AddonError x a \<and> loadAddon_throws l x a"
  by (induction as) (auto simp: split_beta split: if_splits)

lemma load_addons_no_throw:
  "\<forall>a\<in>set as. \<not> loadAddon_throws l x a \<Longrightarrow> snd (load_addons l x as) = None"
  by (induction as) (auto simp: split_beta)

lemma term_effect_error:
  "snd (snd (term_effect l p st)) = Inl e \<Longrightarrow>
     e = ConstructError (options p) \<or> (\<exists>a. e = AddonError (nextTerm st) a)"
  by (auto simp: term_effect_def Let_def dest!: load_addons_error split: if_splits option.splits)

lemma term_effect_no_throw:
  assumes "divRef st" and "\<not> construct_throws l (options p)"
    and "\<forall>as. addons p = Some as \<longrightarrow> (\<forall>a\<in>set as. \<not> loadAddon_throws l (nextTerm st) a)"
  shows "\<exists>d. snd (snd (term_effect l p st)) = Inr d"
  using assms
  by (auto simp: term_effect_def Let_def load_addons_no_throw split: option.splits)

lemma term_effect_acts_ok:
  assumes "divRef st" and "snd (snd (term_effect l p st)) = Inr d"
  shows "fst (term_effect l p st) =
           NewTerminal (nextTerm st) (options p)
           # (case addons p of None \<Rightarrow> [] | Some as \<Rightarrow> map (LoadAddon (nextTerm st)) as)
           @ (if truthy (customKeyEventHandler p)
              then [AttachCustomKeyEventHandler (nextTerm st) (customKeyEventHandler p)] else [])
           @ [Open (nextTerm st)]"
proof -
  have "term_effect l p st = (fst (term_effect l p st), fst (snd (term_effect l p st)), Inr d)"
    using assms(2) by (metis prod.collapse)
  from term_effect_Inr(3)[OF assms(1) this] show ?thesis .
qed

lemma term_effect_loads:
  assumes "divRef st" and "addons p = Some as"
  shows "filter is_load (fst (term_effect l p st)) =
           (if construct_throws l (options p) then [] else fst (load_addons l (nextTerm st) as))"
proof -
  have "filter is_load (fst (load_addons l (nextTerm st) as)) = fst (load_addons l (nextTerm st) as)"
  proof -
    obtain n where "fst (load_addons l (nextTerm st) as) = take n (map (LoadAddon (nextTerm st)) as)"
      using load_addons_prefix by blast
    moreover have "filter is_load (take n (map (LoadAddon (nextTerm st)) as)) = take n (map (LoadAddon (nextTerm st)) as)"
      by (rule filter_True) (auto dest!: in_set_takeD)
    ultimately show ?thesis by simp
  qed
  then show ?thesis
    using assms by (simp add: term_effect_def Let_def split: option.splits)
qed

lemma filter_load_nil:
  "\<forall>a\<in>set xs. kind_of a = k \<Longrightarrow> k \<noteq> Construct \<Longrightarrow> filter is_load xs = []"
  by (auto simp: filter_empty_conv dest: is_load_kind)

lemma filter_attach_nil:
  "\<forall>a\<in>set xs. kind_of a = k \<Longrightarrow> k \<noteq> Construct \<Longrightarrow> filter is_attach xs = []"
  by (auto simp: filter_empty_conv dest: is_attach_kind)

lemma k_destroy_term: "\<forall>a\<in>set (fst (destroy_term l st)). kind_of a = Teardown"
  using destroy_term_kind[of l st "fst (destroy_term l st)" "snd (destroy_term l st)"] by simp

subsection \<open>The bindings of one event\<close>

lemma filter_event_nil:
  "\<forall>a\<in>set xs. kind_of a = k \<Longrightarrow> k = Teardown \<or> k = Construct \<or> k = Init \<Longrightarrow>
     filter (\<lambda>a. action_event a = Some e) xs = []"
proof -
  assume k: "\<forall>a\<in>set xs. kind_of a = k" and t: "k = Teardown \<or> k = Construct \<or> k = Init"
  have "\<forall>a\<in>set xs. action_event a = None"
  proof
    fix a assume "a \<in> set xs"
    with k t have "kind_of a = Teardown \<or> kind_of a = Construct \<or> kind_of a = Init" by auto
    then show "action_event a = None" by (rule kind_event_None)
  qed
  then show ?thesis by (simp add: filter_empty_conv)
qed

lemma live_update_event:
  assumes lv: "live pc pl st" and u: "update l p st = (None, acts, st')"
  shows "filter (\<lambda>a. action_event a = Some e) acts =
      (if handler_of p e \<noteq> handler_of pl e
       then (case bindDestroy st e of None \<Rightarrow> [] | Some b \<Rightarrow> [DisposeBinding b])
            @ (case bindDestroy st' e of None \<Rightarrow> [] | Some b \<Rightarrow> [Subscribe b])
       else [])"
    and "handler_of p e \<noteq> handler_of pl e \<Longrightarrow> bindDestroy st' e = Some b \<Longrightarrow>
           xtermRef st' = Some (b_term b)"
proof -
  let ?chB = "\<lambda>e. False \<or> handler_of p e \<noteq> bindDeps st e"
  let ?chT = "False \<or> options p \<noteq> termDeps st"
  let ?st0 = "st\<lparr>termDeps := options p, bindDeps := handler_of p, initDeps := xtermRef st\<rparr>"
  from u have c: "commit l p False st = (None, acts, st')" by (simp add: update_def)
  from c obtain a1 s1 a2 s2 a3 s3 res where
    d1: "(if ?chT then destroy_term l ?st0 else ([], ?st0)) = (a1, s1)"
    and d2: "destroy_binds all_events ?chB s1 = (a2, s2)"
    and c1: "(if ?chT then term_effect l p s2 else ([], s2, Inr (termDestroy s2))) = (a3, s3, res)"
    and rest: "case res of
       Inl e \<Rightarrow> None = Some e \<and> acts = a1 @ a2 @ a3 \<and> st' = s3
     | Inr d \<Rightarrow> (\<exists>a4 s4.
         create_binds all_events ?chB p (s3\<lparr>termDestroy := d\<rparr>) = (a4, s4)
         \<and> None = (None::error option)
         \<and> acts = a1 @ a2 @ a3 @ a4
             @ (if False \<or> xtermRef st \<noteq> initDeps st then init_effect p s4 else [])
         \<and> st' = s4)"
    by (rule commit_decomp)
  from rest obtain d a4 where res: "res = Inr d"
    and c2: "create_binds all_events ?chB p (s3\<lparr>termDestroy := d\<rparr>) = (a4, st')"
    and acts: "acts = a1 @ a2 @ a3 @ a4
             @ (if False \<or> xtermRef st \<noteq> initDeps st then init_effect p st' else [])"
    by (cases res) auto
  let ?a5 = "if False \<or> xtermRef st \<noteq> initDeps st then init_effect p st' else []"
  from lv have bd: "bindDeps st = handler_of pl" and dv: "divRef st"
    and inv: "\<forall>e' b. bindDestroy st e' = Some b \<longrightarrow> b_event b = e'"
    and xs: "\<exists>x. xtermRef st = Some x"
    by (auto simp: live_def split: option.splits)
  have k1: "\<forall>a\<in>set a1. kind_of a = Teardown"
    using d1 destroy_term_kind by (fastforce split: if_splits)
  have k3: "\<forall>a\<in>set a3. kind_of a = Construct"
    using c1 term_effect_kind by (fastforce split: if_splits)
  have k5: "\<forall>a\<in>set ?a5. kind_of a = Init"
    using init_effect_kind by auto
  have b1: "bindDestroy s1 = bindDestroy st" and dv1: "divRef s1"
    using d1 dv by (auto simp: destroy_term_def term_cleanup_def split: if_splits option.splits)
  have f2: "filter (\<lambda>a. action_event a = Some e) a2 =
      (if ?chB e then (case bindDestroy st e of None \<Rightarrow> [] | Some b \<Rightarrow> [DisposeBinding b]) else [])"
    using destroy_binds_filter[OF distinct_all_events, of s1 e ?chB] inv d2
    by (simp add: b1 set_all_events)
  have f4: "filter (\<lambda>a. action_event a = Some e) a4 =
      (if ?chB e then (case bindDestroy st' e of None \<Rightarrow> [] | Some b \<Rightarrow> [Subscribe b]) else [])"
    using create_binds_filter[OF c2 distinct_all_events, of e]
    by (simp add: set_all_events)
  have "filter (\<lambda>a. action_event a = Some e) acts =
      filter (\<lambda>a. action_event a = Some e) a2 @ filter (\<lambda>a. action_event a = Some e) a4"
    unfolding acts
    using filter_event_nil[OF k1, of e] filter_event_nil[OF k3, of e] filter_event_nil[OF k5, of e]
    by simp
  with f2 f4 bd show "filter (\<lambda>a. action_event a = Some e) acts =
      (if handler_of p e \<noteq> handler_of pl e
       then (case bindDestroy st e of None \<Rightarrow> [] | Some b \<Rightarrow> [DisposeBinding b])
            @ (case bindDestroy st' e of None \<Rightarrow> [] | Some b \<Rightarrow> [Subscribe b])
       else [])"
    by simp
  assume ch: "handler_of p e \<noteq> handler_of pl e" and b: "bindDestroy st' e = Some b"
  from ch bd have che: "?chB e" by simp
  note fr = create_binds_frame[OF c2]
  from create_binds_slot[OF c2 distinct_all_events set_all_events che] b fr
  show "xtermRef st' = Some (b_term b)"
    by (auto split: option.splits if_splits)
qed

section \<open>The claims\<close>

text \<open>
  Claim C1 says that a binding is disposed before the terminal that produced it, and is
  never kept once that terminal is disposed. The component does not do this. In the run
  below the component is mounted with \<open>onData\<close> and an \<open>options\<close> object, then rendered
  again with the same \<open>onData\<close> and another \<open>options\<close> object. The commit disposes
  terminal 0 and constructs terminal 1, but the effect of \<open>useBind\<close> depends on
  \<open>[handler]\<close> alone and does not run: its binding on terminal 0 is not disposed, stays
  the stored cleanup while terminal 1 is in use, and terminal 1 gets no binding. When
  the component is removed the cleanups run in hook order, so the terminal is disposed
  first and its bindings after it.
\<close>

theorem binding_outlives_its_terminal:
  "fst (snd (run quiet_lib props_A [props_B])) =
     [NewTerminal 0 (Some 1), LoadAddon 0 5, LoadAddon 0 6,
      AttachCustomKeyEventHandler 0 (Fn 4), Open 0,
      Subscribe (Binding 0 OnData 0 (Fn 1)), CallOnInit (Fn 2) (Some 0),
      CallOnDispose (Fn 3) 0, Dispose 0,
      NewTerminal 1 (Some 2), LoadAddon 1 5, LoadAddon 1 6,
      AttachCustomKeyEventHandler 1 (Fn 4), Open 1, CallOnInit (Fn 2) (Some 1)]
   \<and> xtermRef (snd (snd (run quiet_lib props_A [props_B]))) = Some 1
   \<and> bindDestroy (snd (snd (run quiet_lib props_A [props_B]))) OnData = Some (Binding 0 OnData 0 (Fn 1))
   \<and> fst (unmount quiet_lib (snd (snd (run quiet_lib props_A [])))) =
       [CallOnDispose (Fn 3) 0, Dispose 0, DisposeBinding (Binding 0 OnData 0 (Fn 1))]"
  by code_simp

text \<open>
  Claim C2 says that a change of the identity of \<open>options\<close> gives one teardown followed by
  one construction, with the addons loaded and \<open>onInit\<close> called on the new terminal. The
  teardown, the construction and the loads happen; the call of \<open>onInit\<close> does not. Its
  effect depends on \<open>[xtermRef.current]\<close>, read while rendering, when the ref still
  holds the old terminal. In the run below the second render (same props) calls
  \<open>onInit\<close> a second time on terminal 0, since the ref was null during the first render;
  the third render changes \<open>options\<close>, and its commit ends with terminal 1 in the ref and
  no call of \<open>onInit\<close>.
\<close>

theorem onInit_missed_after_options_change:
  "fst (snd (run quiet_lib props_A [props_A])) =
     [NewTerminal 0 (Some 1), LoadAddon 0 5, LoadAddon 0 6,
      AttachCustomKeyEventHandler 0 (Fn 4), Open 0,
      Subscribe (Binding 0 OnData 0 (Fn 1)), CallOnInit (Fn 2) (Some 0),
      CallOnInit (Fn 2) (Some 0)]
   \<and> fst (snd (update quiet_lib props_B (snd (snd (run quiet_lib props_A [props_A]))))) =
     [CallOnDispose (Fn 3) 0, Dispose 0,
      NewTerminal 1 (Some 2), LoadAddon 1 5, LoadAddon 1 6,
      AttachCustomKeyEventHandler 1 (Fn 4), Open 1]
   \<and> xtermRef (snd (snd (update quiet_lib props_B (snd (snd (run quiet_lib props_A [props_A])))))) = Some 1"
  by code_simp




text \<open>
  Claim C4. Let the \<open>dispose\<close> of the terminal in use throw. On removal the error is
  passed to \<open>console.log\<close> right after the call of \<open>dispose\<close>, the remaining cleanups
  (those of the bindings) still run, and the ref and every stored cleanup end up cleared;
  \<open>unmount\<close> has no error to return. When a render changes the identity of \<open>options\<close>
  the error is logged in the same way, the commit does not end with it, and if the
  construction succeeds the ref holds the next terminal.
\<close>

theorem dispose_error_logged_not_raised:
  assumes run: "run l p0 ps = (None, a0, st)" and x: "xtermRef st = Some x"
    and th: "dispose_throws l x"
  shows "xterm_dispose l x = Inl (DisposeError x)
       \<and> (\<exists>pre post. fst (unmount l st) = pre @ [Dispose x, ConsoleLog (DisposeError x)] @ post
              \<and> (\<forall>a\<in>set post. kind_of a = Unsub))
       \<and> xtermRef (snd (unmount l st)) = None
       \<and> termDestroy (snd (unmount l st)) = None
       \<and> (\<forall>e. bindDestroy (snd (unmount l st)) e = None)
       \<and> (options p \<noteq> options (last (p0 # ps)) \<longrightarrow>
            (\<exists>pre post. fst (snd (update l p st)) = pre @ [Dispose x, ConsoleLog (DisposeError x)] @ post)
            \<and> (\<forall>y. fst (update l p st) \<noteq> Some (DisposeError y))
            \<and> (fst (update l p st) = None \<longrightarrow> xtermRef (snd (snd (update l p st))) = Some (Suc x)))"
proof -
  note lv = run_live[OF run]
  let ?od = "onDispose (ctor_props p0 ps)"
  from lv x have td: "termDestroy st = Some (?od, x)" and tp: "termDeps st = options (last (p0 # ps))"
    and nt: "nextTerm st = Suc x" and dv: "divRef st"
    by (auto simp: live_def)
  let ?pre = "if is_function ?od then [CallOnDispose ?od x] else []"
  have tc: "fst (term_cleanup l ?od x st) = ?pre @ [Dispose x, ConsoleLog (DisposeError x)]"
    using th by (simp add: term_cleanup_acts)
  have 1: "xterm_dispose l x = Inl (DisposeError x)"
    using th by (simp add: xterm_dispose_def)
  from unmount_parts(1)[OF td, of l] obtain a2 where
    um: "fst (unmount l st) = fst (term_cleanup l ?od x st) @ a2"
    and k: "\<forall>a\<in>set a2. kind_of a = Unsub"
    by blast
  from um tc have "fst (unmount l st) = ?pre @ [Dispose x, ConsoleLog (DisposeError x)] @ a2"
    by simp
  with k have 2: "\<exists>pre post. fst (unmount l st) = pre @ [Dispose x, ConsoleLog (DisposeError x)] @ post
              \<and> (\<forall>a\<in>set post. kind_of a = Unsub)"
    by blast
  note 3 = unmount_parts(2)[OF td, of l] unmount_parts(3)[OF td, of l]
  have 4: "\<forall>e. bindDestroy (snd (unmount l st)) e = None"
    using unmount_parts(4)[OF td, of l] by blast
  have 5: "options p \<noteq> options (last (p0 # ps)) \<longrightarrow>
            (\<exists>pre post. fst (snd (update l p st)) = pre @ [Dispose x, ConsoleLog (DisposeError x)] @ post)
            \<and> (\<forall>y. fst (update l p st) \<noteq> Some (DisposeError y))
            \<and> (fst (update l p st) = None \<longrightarrow> xtermRef (snd (snd (update l p st))) = Some (Suc x))"
  proof
    assume "options p \<noteq> options (last (p0 # ps))"
    with tp have ch: "False \<or> options p \<noteq> termDeps st" by simp
    obtain r acts st' where u: "commit l p False st = (r, acts, st')"
      by (metis prod_cases3)
    obtain a2 a3 a4 a5 where
      acts: "acts = (if False \<or> options p \<noteq> termDeps st then fst (destroy_term l st) else [])
            @ a2 @ a3 @ a4 @ a5"
      and "\<forall>a\<in>set a2. kind_of a = Unsub" "\<forall>a\<in>set a3. kind_of a = Construct"
      "\<forall>a\<in>set a4. kind_of a = Sub" "\<forall>a\<in>set a5. kind_of a = Init"
      and "\<not> (False \<or> options p \<noteq> termDeps st) \<longrightarrow> a3 = [] \<and> r = None \<and> nextTerm st' = nextTerm st"
      and ok: "False \<or> options p \<noteq> termDeps st \<longrightarrow> divRef st \<longrightarrow> r = None \<longrightarrow>
          nextTerm st' = Suc (nextTerm st) \<and> xtermRef st' = Some (nextTerm st)"
      and t: "False \<or> options p \<noteq> termDeps st \<longrightarrow>
          a3 = fst (term_effect l p st)
          \<and> r = (case snd (snd (term_effect l p st)) of Inl e \<Rightarrow> Some e | Inr d \<Rightarrow> None)"
      by (rule commit_parts[OF u])
    from acts ch have "acts = ?pre @ [Dispose x, ConsoleLog (DisposeError x)] @ (a2 @ a3 @ a4 @ a5)"
      by (simp add: destroy_term_acts_Some[OF td] tc)
    then have A: "\<exists>pre post. acts = pre @ [Dispose x, ConsoleLog (DisposeError x)] @ post"
      by blast
    from t ch have r: "r = (case snd (snd (term_effect l p st)) of Inl e \<Rightarrow> Some e | Inr d \<Rightarrow> None)"
      by simp
    have B: "\<forall>y. r \<noteq> Some (DisposeError y)"
    proof (intro allI notI)
      fix y assume "r = Some (DisposeError y)"
      with r have "snd (snd (term_effect l p st)) = Inl (DisposeError y)"
        by (cases "snd (snd (term_effect l p st))") simp_all
      from term_effect_error[OF this] show False by auto
    qed
    from ok ch dv nt have C: "r = None \<longrightarrow> xtermRef st' = Some (Suc x)" by simp
    from A B C u show "(\<exists>pre post. fst (snd (update l p st)) = pre @ [Dispose x, ConsoleLog (DisposeError x)] @ post)
            \<and> (\<forall>y. fst (update l p st) \<noteq> Some (DisposeError y))
            \<and> (fst (update l p st) = None \<longrightarrow> xtermRef (snd (snd (update l p st))) = Some (Suc x))"
      by (simp add: update_def)
  qed
  from 1 2 3 4 5 show ?thesis by blast
qed

theorem dispose_error_logged_not_raised_witness:
  "xterm_dispose (quiet_lib\<lparr>dispose_throws := (\<lambda>x. True)\<rparr>) 0 = Inl (DisposeError 0)
   \<and> xtermRef (snd (unmount (quiet_lib\<lparr>dispose_throws := (\<lambda>x. True)\<rparr>)
        (snd (snd (run (quiet_lib\<lparr>dispose_throws := (\<lambda>x. True)\<rparr>) props_A []))))) = None
   \<and> fst (update (quiet_lib\<lparr>dispose_throws := (\<lambda>x. True)\<rparr>) props_B
        (snd (snd (run (quiet_lib\<lparr>dispose_throws := (\<lambda>x. True)\<rparr>) props_A [])))) \<noteq> Some (DisposeError 0)
   \<and> xtermRef (snd (snd (update (quiet_lib\<lparr>dispose_throws := (\<lambda>x. True)\<rparr>) props_B
        (snd (snd (run (quiet_lib\<lparr>dispose_throws := (\<lambda>x. True)\<rparr>) props_A [])))))) = Some 1"
proof -
  let ?l = "quiet_lib\<lparr>dispose_throws := (\<lambda>x. True)\<rparr>"
  let ?r = "run ?l props_A []"
  have n: "fst ?r = None" by code_simp
  have e: "?r = (None, fst (snd ?r), snd (snd ?r))"
    using n by (metis prod.collapse)
  have x: "xtermRef (snd (snd ?r)) = Some 0" by code_simp
  have th: "dispose_throws ?l 0" by simp
  have o: "options props_B \<noteq> options (last (props_A # []))" by code_simp
  have u: "fst (update ?l props_B (snd (snd ?r))) = None" by code_simp
  from dispose_error_logged_not_raised[OF e x th, of props_B] o u show ?thesis
    by simp
qed

text \<open>
  Claim C5. Take a component that was mounted and rendered any number of times, and one
  more render that commits without an error. For each event name: if the handler is the
  same reference as in the render before, the commit neither subscribes to nor
  unsubscribes from that event; if both handlers are functions and differ, the commit
  disposes the stored binding of the old handler, then creates one binding of the new
  handler on the terminal in use, and does nothing else for that event.
\<close>

theorem rebind_exactly_on_new_callback:
  assumes run: "run l p0 ps = (None, a0, st)" and u: "update l p st = (None, acts, st')"
  shows "(handler_of p e = handler_of (last (p0 # ps)) e \<longrightarrow>
            filter (\<lambda>a. action_event a = Some e) acts = [])
       \<and> (is_function (handler_of (last (p0 # ps)) e) \<and> is_function (handler_of p e)
            \<and> handler_of p e \<noteq> handler_of (last (p0 # ps)) e \<longrightarrow>
            (\<exists>bo bn. bindDestroy st e = Some bo \<and> b_event bo = e
                     \<and> b_handler bo = handler_of (last (p0 # ps)) e
                     \<and> bindDestroy st' e = Some bn \<and> b_event bn = e
                     \<and> b_handler bn = handler_of p e \<and> xtermRef st' = Some (b_term bn)
                     \<and> filter (\<lambda>a. action_event a = Some e) acts = [DisposeBinding bo, Subscribe bn]))"
proof -
  let ?pl = "last (p0 # ps)"
  note lv = run_live[OF run]
  note lv' = update_live[OF lv u]
  note ev = live_update_event[OF lv u, of e]
  have 1: "handler_of p e = handler_of ?pl e \<longrightarrow> filter (\<lambda>a. action_event a = Some e) acts = []"
    using ev(1) by simp
  have 2: "is_function (handler_of ?pl e) \<and> is_function (handler_of p e)
            \<and> handler_of p e \<noteq> handler_of ?pl e \<longrightarrow>
            (\<exists>bo bn. bindDestroy st e = Some bo \<and> b_event bo = e
                     \<and> b_handler bo = handler_of ?pl e
                     \<and> bindDestroy st' e = Some bn \<and> b_event bn = e
                     \<and> b_handler bn = handler_of p e \<and> xtermRef st' = Some (b_term bn)
                     \<and> filter (\<lambda>a. action_event a = Some e) acts = [DisposeBinding bo, Subscribe bn])"
  proof
    assume h: "is_function (handler_of ?pl e) \<and> is_function (handler_of p e)
            \<and> handler_of p e \<noteq> handler_of ?pl e"
    from lv have "case bindDestroy st e of
               None \<Rightarrow> \<not> is_function (handler_of ?pl e)
             | Some b \<Rightarrow> is_function (handler_of ?pl e) \<and> b_handler b = handler_of ?pl e
                         \<and> b_event b = e"
      unfolding live_def by blast
    with h obtain bo where bo: "bindDestroy st e = Some bo" "b_handler bo = handler_of ?pl e"
      "b_event bo = e"
      by (cases "bindDestroy st e") simp_all
    from lv' have "case bindDestroy st' e of
               None \<Rightarrow> \<not> is_function (handler_of p e)
             | Some b \<Rightarrow> is_function (handler_of p e) \<and> b_handler b = handler_of p e
                         \<and> b_event b = e"
      unfolding live_def by blast
    with h obtain bn where bn: "bindDestroy st' e = Some bn" "b_handler bn = handler_of p e"
      "b_event bn = e"
      by (cases "bindDestroy st' e") simp_all
    from h ev(2)[OF _ bn(1)] have xr: "xtermRef st' = Some (b_term bn)" by simp
    from ev(1) h bo(1) bn(1) have "filter (\<lambda>a. action_event a = Some e) acts = [DisposeBinding bo, Subscribe bn]"
      by simp
    with bo bn xr show "\<exists>bo bn. bindDestroy st e = Some bo \<and> b_event bo = e
                     \<and> b_handler bo = handler_of ?pl e
                     \<and> bindDestroy st' e = Some bn \<and> b_event bn = e
                     \<and> b_handler bn = handler_of p e \<and> xtermRef st' = Some (b_term bn)
                     \<and> filter (\<lambda>a. action_event a = Some e) acts = [DisposeBinding bo, Subscribe bn]"
      by blast
  qed
  from 1 2 show ?thesis by blast
qed

theorem rebind_exactly_on_new_callback_witness:
  "filter (\<lambda>a. action_event a = Some OnData)
     (fst (snd (update quiet_lib (props_A\<lparr>onData := Fn 9\<rparr>) (snd (snd (run quiet_lib props_A []))))))
     = [DisposeBinding (Binding 0 OnData 0 (Fn 1)), Subscribe (Binding 1 OnData 0 (Fn 9))]
   \<and> filter (\<lambda>a. action_event a = Some OnKey)
     (fst (snd (update quiet_lib (props_A\<lparr>onData := Fn 9\<rparr>) (snd (snd (run quiet_lib props_A []))))))
     = []"
proof -
  let ?r = "run quiet_lib props_A []"
  let ?p = "props_A\<lparr>onData := Fn 9\<rparr>"
  let ?u = "update quiet_lib ?p (snd (snd ?r))"
  have n: "fst ?r = None" by code_simp
  have e: "?r = (None, fst (snd ?r), snd (snd ?r))"
    using n by (metis prod.collapse)
  have m: "fst ?u = None" by code_simp
  have u: "?u = (None, fst (snd ?u), snd (snd ?u))"
    using m by (metis prod.collapse)
  have h: "is_function (handler_of (last (props_A # [])) OnData) \<and> is_function (handler_of ?p OnData)
           \<and> handler_of ?p OnData \<noteq> handler_of (last (props_A # [])) OnData"
    by code_simp
  have k: "handler_of ?p OnKey = handler_of (last (props_A # [])) OnKey" by code_simp
  have bo: "bindDestroy (snd (snd ?r)) OnData = Some (Binding 0 OnData 0 (Fn 1))" by code_simp
  have bn: "bindDestroy (snd (snd ?u)) OnData = Some (Binding 1 OnData 0 (Fn 9))" by code_simp
  from rebind_exactly_on_new_callback[OF e u, of OnData] h bo bn
  have 1: "filter (\<lambda>a. action_event a = Some OnData) (fst (snd ?u))
     = [DisposeBinding (Binding 0 OnData 0 (Fn 1)), Subscribe (Binding 1 OnData 0 (Fn 9))]"
    by auto
  from rebind_exactly_on_new_callback[OF e u, of OnKey] k
  have 2: "filter (\<lambda>a. action_event a = Some OnKey) (fst (snd ?u)) = []"
    by blast
  from 1 2 show ?thesis by blast
qed

text \<open>
  Claim C6. When the component mounts without an effect throwing and \<open>onInit\<close> is a
  function, the actions of the mount are: the construction of terminal 0, the loads and
  the attachment of the key handler, \<open>open\<close>, the subscriptions, and last a single call of
  \<open>onInit\<close> whose argument is terminal 0, the terminal in the ref.
\<close>

theorem onInit_after_open_on_mount:
  assumes m: "mount l p = (None, acts, st)" and f: "is_function (onInit p)"
  shows "\<exists>pre subs.
           acts = NewTerminal 0 (options p) # pre @ [Open 0] @ subs @ [CallOnInit (onInit p) (Some 0)]
         \<and> (\<forall>a\<in>set pre. is_load a \<or> is_attach a)
         \<and> (\<forall>a\<in>set subs. kind_of a = Sub)
         \<and> xtermRef st = Some 0"
proof -
  let ?st0 = "initial\<lparr>divRef := True, termDeps := options p, bindDeps := handler_of p\<rparr>"
  let ?c1 = "term_effect l p ?st0"
  have dv: "divRef ?st0" and n0: "nextTerm ?st0 = 0" by (simp_all add: initial_def)
  from m obtain d where d: "snd (snd ?c1) = Inr d"
    by (cases "snd (snd ?c1)") (simp_all add: mount_eq Let_def)
  let ?c2 = "create_binds all_events (\<lambda>e. True) p ((fst (snd ?c1))\<lparr>termDestroy := d\<rparr>)"
  from m d have acts: "acts = fst ?c1 @ fst ?c2 @ init_effect p (snd ?c2)" and st: "st = snd ?c2"
    by (auto simp: mount_eq Let_def)
  have te: "?c1 = (fst ?c1, fst (snd ?c1), Inr d)"
    using d by (metis prod.collapse)
  note t = term_effect_Inr[OF dv te]
  let ?pre = "(case addons p of None \<Rightarrow> [] | Some as \<Rightarrow> map (LoadAddon 0) as)
           @ (if truthy (customKeyEventHandler p)
              then [AttachCustomKeyEventHandler 0 (customKeyEventHandler p)] else [])"
  from t(3)[unfolded n0] have a1: "fst ?c1 = NewTerminal 0 (options p) # ?pre @ [Open 0]" by simp
  have "xtermRef (snd ?c2) = xtermRef ((fst (snd ?c1))\<lparr>termDestroy := d\<rparr>)"
    using create_binds_frame[of all_events "\<lambda>e. True" p "(fst (snd ?c1))\<lparr>termDestroy := d\<rparr>" "fst ?c2" "snd ?c2"]
    by simp
  with t(1) n0 have xr: "xtermRef (snd ?c2) = Some 0" by simp
  then have ie: "init_effect p (snd ?c2) = [CallOnInit (onInit p) (Some 0)]"
    using f by (simp add: init_effect_def)
  have kp: "\<forall>a\<in>set ?pre. is_load a \<or> is_attach a"
    by (auto split: option.splits)
  have ks: "\<forall>a\<in>set (fst ?c2). kind_of a = Sub"
    using k_create_binds by blast
  from acts a1 ie have "acts = NewTerminal 0 (options p) # ?pre @ [Open 0] @ fst ?c2 @ [CallOnInit (onInit p) (Some 0)]"
    by simp
  with kp ks xr st show ?thesis by blast
qed

theorem onInit_after_open_on_mount_witness:
  "last (fst (snd (mount quiet_lib props_A))) = CallOnInit (Fn 2) (Some 0)
   \<and> hd (fst (snd (mount quiet_lib props_A))) = NewTerminal 0 (Some 1)
   \<and> Open 0 \<in> set (fst (snd (mount quiet_lib props_A)))
   \<and> xtermRef (snd (snd (mount quiet_lib props_A))) = Some 0"
proof -
  let ?m = "mount quiet_lib props_A"
  have n: "fst ?m = None" by code_simp
  have e: "?m = (None, fst (snd ?m), snd (snd ?m))"
    using n by (metis prod.collapse)
  have f: "is_function (onInit props_A)" by code_simp
  have v: "onInit props_A = Fn 2" "options props_A = Some 1" by code_simp+
  from onInit_after_open_on_mount[OF e f] obtain pre subs where
    a: "fst (snd ?m) = NewTerminal 0 (options props_A) # pre @ [Open 0] @ subs @ [CallOnInit (onInit props_A) (Some 0)]"
    and x: "xtermRef (snd (snd ?m)) = Some 0"
    by blast
  show ?thesis unfolding a using x v by simp
qed

text \<open>
  Claim C7. In a commit that constructs a terminal (the mount, or a render with another
  \<open>options\<close> object) with the container attached and \<open>addons = as\<close>: the loads
  performed are a prefix of \<open>as\<close>, in order, on the new terminal; when the commit does not
  throw they are exactly \<open>as\<close>, once per entry, after the construction and before
  \<open>open\<close>; and the commit does not throw when neither the constructor nor a load does.
\<close>

theorem addons_loaded_in_order:
  assumes c: "commit l p first st = (r, acts, st')" and dv: "divRef st"
    and ch: "first \<or> options p \<noteq> termDeps st" and ad: "addons p = Some as"
  shows "(\<exists>n. filter is_load acts = take n (map (LoadAddon (nextTerm st)) as))
       \<and> (r = None \<longrightarrow>
            filter is_load acts = map (LoadAddon (nextTerm st)) as
            \<and> (\<exists>pre post. acts = pre @ NewTerminal (nextTerm st) (options p)
                                  # map (LoadAddon (nextTerm st)) as @ post
                   \<and> Open (nextTerm st) \<in> set post))
       \<and> (\<not> construct_throws l (options p) \<and> (\<forall>a\<in>set as. \<not> loadAddon_throws l (nextTerm st) a)
            \<longrightarrow> r = None)"
proof -
  let ?n = "nextTerm st"
  obtain a2 a3 a4 a5 where
    acts: "acts = (if first \<or> options p \<noteq> termDeps st then fst (destroy_term l st) else [])
            @ a2 @ a3 @ a4 @ a5"
    and k: "\<forall>a\<in>set a2. kind_of a = Unsub" "\<forall>a\<in>set a3. kind_of a = Construct"
    "\<forall>a\<in>set a4. kind_of a = Sub" "\<forall>a\<in>set a5. kind_of a = Init"
    and "\<not> (first \<or> options p \<noteq> termDeps st) \<longrightarrow> a3 = [] \<and> r = None \<and> nextTerm st' = nextTerm st"
    and "first \<or> options p \<noteq> termDeps st \<longrightarrow> divRef st \<longrightarrow> r = None \<longrightarrow>
          nextTerm st' = Suc (nextTerm st) \<and> xtermRef st' = Some (nextTerm st)"
    and t: "first \<or> options p \<noteq> termDeps st \<longrightarrow>
          a3 = fst (term_effect l p st)
          \<and> r = (case snd (snd (term_effect l p st)) of Inl e \<Rightarrow> Some e | Inr d \<Rightarrow> None)"
    by (rule commit_parts[OF c])
  from t ch have a3: "a3 = fst (term_effect l p st)"
    and r: "r = (case snd (snd (term_effect l p st)) of Inl e \<Rightarrow> Some e | Inr d \<Rightarrow> None)"
    by simp_all
  from acts ch have acts: "acts = fst (destroy_term l st) @ a2 @ a3 @ a4 @ a5" by simp
  have f: "filter is_load acts = filter is_load a3"
    unfolding acts
    using filter_load_nil[OF k_destroy_term, of l st] filter_load_nil[OF k(1)]
      filter_load_nil[OF k(3)] filter_load_nil[OF k(4)]
    by simp
  have fl: "filter is_load a3 = (if construct_throws l (options p) then [] else fst (load_addons l ?n as))"
    unfolding a3 by (rule term_effect_loads[OF dv ad])
  have 1: "\<exists>n. filter is_load acts = take n (map (LoadAddon ?n) as)"
  proof (cases "construct_throws l (options p)")
    case True
    with f fl have "filter is_load acts = take 0 (map (LoadAddon ?n) as)" by simp
    then show ?thesis by blast
  next
    case False
    with f fl load_addons_prefix[of l ?n as] show ?thesis by simp
  qed
  have 2: "r = None \<longrightarrow>
            filter is_load acts = map (LoadAddon ?n) as
            \<and> (\<exists>pre post. acts = pre @ NewTerminal ?n (options p) # map (LoadAddon ?n) as @ post
                   \<and> Open ?n \<in> set post)"
  proof
    assume "r = None"
    with r obtain d where d: "snd (snd (term_effect l p st)) = Inr d"
      by (cases "snd (snd (term_effect l p st))") simp_all
    from term_effect_acts_ok[OF dv d] ad a3
    have a3': "a3 = NewTerminal ?n (options p) # map (LoadAddon ?n) as
           @ (if truthy (customKeyEventHandler p)
              then [AttachCustomKeyEventHandler ?n (customKeyEventHandler p)] else [])
           @ [Open ?n]"
      by simp
    have "filter is_load a3 = map (LoadAddon ?n) as"
      unfolding a3' by (simp add: filter_True[of "map (LoadAddon ?n) as" is_load, simplified])
    with f have A: "filter is_load acts = map (LoadAddon ?n) as" by simp
    let ?pre = "fst (destroy_term l st) @ a2"
    let ?post = "(if truthy (customKeyEventHandler p)
              then [AttachCustomKeyEventHandler ?n (customKeyEventHandler p)] else [])
           @ [Open ?n] @ a4 @ a5"
    have "acts = ?pre @ NewTerminal ?n (options p) # map (LoadAddon ?n) as @ ?post"
      unfolding acts a3' by simp
    moreover have "Open ?n \<in> set ?post" by simp
    ultimately have "\<exists>pre post. acts = pre @ NewTerminal ?n (options p) # map (LoadAddon ?n) as @ post
                   \<and> Open ?n \<in> set post"
      by blast
    with A show "filter is_load acts = map (LoadAddon ?n) as
            \<and> (\<exists>pre post. acts = pre @ NewTerminal ?n (options p) # map (LoadAddon ?n) as @ post
                   \<and> Open ?n \<in> set post)"
      by blast
  qed
  have 3: "\<not> construct_throws l (options p) \<and> (\<forall>a\<in>set as. \<not> loadAddon_throws l ?n a) \<longrightarrow> r = None"
  proof
    assume h: "\<not> construct_throws l (options p) \<and> (\<forall>a\<in>set as. \<not> loadAddon_throws l ?n a)"
    with ad have "\<forall>as. addons p = Some as \<longrightarrow> (\<forall>a\<in>set as. \<not> loadAddon_throws l ?n a)" by simp
    from term_effect_no_throw[OF dv _ this] h obtain d where "snd (snd (term_effect l p st)) = Inr d"
      by blast
    with r show "r = None" by simp
  qed
  from 1 2 3 show ?thesis by blast
qed

theorem addons_loaded_in_order_witness:
  "fst (mount quiet_lib props_A) = None
   \<and> filter is_load (fst (snd (mount quiet_lib props_A))) = [LoadAddon 0 5, LoadAddon 0 6]"
proof -
  let ?s = "initial\<lparr>divRef := True\<rparr>"
  let ?c = "commit quiet_lib props_A True ?s"
  have e: "?c = (fst ?c, fst (snd ?c), snd (snd ?c))" by simp
  have dv: "divRef ?s" by simp
  have ch: "True \<or> options props_A \<noteq> termDeps ?s" by simp
  have ad: "addons props_A = Some [5, 6]" by code_simp
  have nt: "nextTerm ?s = 0" by code_simp
  have q: "\<not> construct_throws quiet_lib (options props_A)
           \<and> (\<forall>a\<in>set [5, 6]. \<not> loadAddon_throws quiet_lib (nextTerm ?s) a)"
    by (simp add: quiet_lib_def)
  from addons_loaded_in_order[OF e dv ch ad] q nt show ?thesis
    by (simp add: mount_def)
qed

text \<open>
  Claim C8. When the handler prop of an event is absent or is not a function, the effect
  of \<open>useBind\<close> for that event returns at once: it performs no action, leaves the state
  as it is and returns no cleanup; it has no way to throw. So no commit, from any state,
  subscribes to that event.
\<close>

theorem no_binding_without_callable_handler:
  assumes "\<not> is_function (handler_of p e)"
  shows "useBind_effect e (handler_of p e) st = ([], st, None)
       \<and> (\<forall>b. b_event b = e \<longrightarrow> Subscribe b \<notin> set (fst (snd (commit l p first st))))"
proof -
  have "useBind_effect e (handler_of p e) st = ([], st, None)"
    using assms by (simp add: useBind_effect_def split: option.splits)
  moreover have "\<forall>b. b_event b = e \<longrightarrow> Subscribe b \<notin> set (fst (snd (commit l p first st)))"
  proof (intro allI impI notI)
    fix b
    assume b: "b_event b = e" and m: "Subscribe b \<in> set (fst (snd (commit l p first st)))"
    have "commit l p first st = (fst (commit l p first st), fst (snd (commit l p first st)),
            snd (snd (commit l p first st)))" by simp
    from commit_subscribe[OF this m] b assms show False by simp
  qed
  ultimately show ?thesis by blast
qed

theorem no_binding_without_callable_handler_witness:
  "\<not> is_function (handler_of (props_A\<lparr>onKey := Obj 7\<rparr>) OnKey)
   \<and> useBind_effect OnKey (Obj 7) (snd (snd (mount quiet_lib props_A)))
       = ([], snd (snd (mount quiet_lib props_A)), None)
   \<and> Subscribe (Binding 1 OnKey 0 (Obj 7))
       \<notin> set (fst (snd (update quiet_lib (props_A\<lparr>onKey := Obj 7\<rparr>) (snd (snd (mount quiet_lib props_A))))))"
proof -
  have h: "\<not> is_function (handler_of (props_A\<lparr>onKey := Obj 7\<rparr>) OnKey)" by simp
  from no_binding_without_callable_handler[OF h, of "snd (snd (mount quiet_lib props_A))" quiet_lib False]
  show ?thesis by (simp add: update_def)
qed

text \<open>
  Claim C9. For a mounted component, a render that keeps the identity of \<open>options\<close> does
  the same whatever its \<open>customKeyEventHandler\<close> prop is, and attaches no key handler.
  A render with another \<open>options\<close> object that commits without an error attaches the
  handler of that render, if it is truthy, to the terminal it constructs.
\<close>

theorem customKeyEventHandler_fixed_at_construction:
  assumes run: "run l p0 ps = (None, a0, st)"
  shows "(options p = options (last (p0 # ps)) \<longrightarrow>
            update l (p\<lparr>customKeyEventHandler := h\<rparr>) st = update l p st
            \<and> filter is_attach (fst (snd (update l p st))) = [])
       \<and> (options p \<noteq> options (last (p0 # ps)) \<longrightarrow> fst (update l p st) = None \<longrightarrow>
            filter is_attach (fst (snd (update l p st))) =
              (if truthy (customKeyEventHandler p)
               then [AttachCustomKeyEventHandler (nextTerm st) (customKeyEventHandler p)] else []))"
proof -
  note lv = run_live[OF run]
  then have tp: "termDeps st = options (last (p0 # ps))" and dv: "divRef st"
    by (auto simp: live_def)
  obtain r acts st' where u: "commit l p False st = (r, acts, st')"
    by (metis prod_cases3)
  obtain a2 a3 a4 a5 where
    acts: "acts = (if False \<or> options p \<noteq> termDeps st then fst (destroy_term l st) else [])
          @ a2 @ a3 @ a4 @ a5"
    and k: "\<forall>a\<in>set a2. kind_of a = Unsub" "\<forall>a\<in>set a3. kind_of a = Construct"
    "\<forall>a\<in>set a4. kind_of a = Sub" "\<forall>a\<in>set a5. kind_of a = Init"
    and same: "\<not> (False \<or> options p \<noteq> termDeps st) \<longrightarrow> a3 = [] \<and> r = None \<and> nextTerm st' = nextTerm st"
    and "False \<or> options p \<noteq> termDeps st \<longrightarrow> divRef st \<longrightarrow> r = None \<longrightarrow>
        nextTerm st' = Suc (nextTerm st) \<and> xtermRef st' = Some (nextTerm st)"
    and t: "False \<or> options p \<noteq> termDeps st \<longrightarrow>
        a3 = fst (term_effect l p st)
        \<and> r = (case snd (snd (term_effect l p st)) of Inl e \<Rightarrow> Some e | Inr d \<Rightarrow> None)"
    by (rule commit_parts[OF u])
  have f: "filter is_attach acts = filter is_attach a3"
    unfolding acts
    using filter_attach_nil[OF k_destroy_term, of l st] filter_attach_nil[OF k(1)]
      filter_attach_nil[OF k(3)] filter_attach_nil[OF k(4)]
    by simp
  have ua: "fst (snd (update l p st)) = acts" and ur: "fst (update l p st) = r"
    using u by (simp_all add: update_def)
  have 1: "options p = options (last (p0 # ps)) \<longrightarrow>
            update l (p\<lparr>customKeyEventHandler := h\<rparr>) st = update l p st
            \<and> filter is_attach (fst (snd (update l p st))) = []"
  proof
    assume e: "options p = options (last (p0 # ps))"
    with tp have o: "options p = termDeps st" by simp
    from commit_customKey[of False p st l h] o
    have "update l (p\<lparr>customKeyEventHandler := h\<rparr>) st = update l p st"
      by (simp add: update_def)
    moreover from same o f have "filter is_attach acts = []" by simp
    ultimately show "update l (p\<lparr>customKeyEventHandler := h\<rparr>) st = update l p st
            \<and> filter is_attach (fst (snd (update l p st))) = []"
      using ua by simp
  qed
  have 2: "options p \<noteq> options (last (p0 # ps)) \<longrightarrow> fst (update l p st) = None \<longrightarrow>
            filter is_attach (fst (snd (update l p st))) =
              (if truthy (customKeyEventHandler p)
               then [AttachCustomKeyEventHandler (nextTerm st) (customKeyEventHandler p)] else [])"
  proof (intro impI)
    assume "options p \<noteq> options (last (p0 # ps))" and "fst (update l p st) = None"
    with tp ur have ch: "False \<or> options p \<noteq> termDeps st" and rn: "r = None" by simp_all
    from t ch have a3: "a3 = fst (term_effect l p st)"
      and r: "r = (case snd (snd (term_effect l p st)) of Inl e \<Rightarrow> Some e | Inr d \<Rightarrow> None)"
      by simp_all
    from r rn obtain d where d: "snd (snd (term_effect l p st)) = Inr d"
      by (cases "snd (snd (term_effect l p st))") simp_all
    have "filter is_attach (case addons p of None \<Rightarrow> [] | Some as \<Rightarrow> map (LoadAddon (nextTerm st)) as) = []"
      by (auto simp: filter_empty_conv split: option.splits)
    then have "filter is_attach a3 = (if truthy (customKeyEventHandler p)
               then [AttachCustomKeyEventHandler (nextTerm st) (customKeyEventHandler p)] else [])"
      unfolding a3 term_effect_acts_ok[OF dv d] by simp
    with f ua show "filter is_attach (fst (snd (update l p st))) =
              (if truthy (customKeyEventHandler p)
               then [AttachCustomKeyEventHandler (nextTerm st) (customKeyEventHandler p)] else [])"
      by simp
  qed
  from 1 2 show ?thesis by blast
qed

theorem customKeyEventHandler_fixed_at_construction_witness:
  "update quiet_lib (props_A\<lparr>customKeyEventHandler := Fn 8\<rparr>) (snd (snd (run quiet_lib props_A [])))
     = update quiet_lib props_A (snd (snd (run quiet_lib props_A [])))
   \<and> filter is_attach (fst (snd (update quiet_lib props_A (snd (snd (run quiet_lib props_A [])))))) = []
   \<and> filter is_attach (fst (snd (update quiet_lib props_B (snd (snd (run quiet_lib props_A []))))))
     = [AttachCustomKeyEventHandler 1 (Fn 4)]"
proof -
  let ?r = "run quiet_lib props_A []"
  have n: "fst ?r = None" by code_simp
  have e: "?r = (None, fst (snd ?r), snd (snd ?r))"
    using n by (metis prod.collapse)
  have s: "options props_A = options (last (props_A # []))" by simp
  have o: "options props_B \<noteq> options (last (props_A # []))" by code_simp
  have u: "fst (update quiet_lib props_B (snd (snd ?r))) = None" by code_simp
  have v: "truthy (customKeyEventHandler props_B)" "customKeyEventHandler props_B = Fn 4"
    "nextTerm (snd (snd ?r)) = 1"
    by code_simp+
  from customKeyEventHandler_fixed_at_construction[OF e, of props_A "Fn 8"] s
  have 1: "update quiet_lib (props_A\<lparr>customKeyEventHandler := Fn 8\<rparr>) (snd (snd ?r))
     = update quiet_lib props_A (snd (snd ?r))
   \<and> filter is_attach (fst (snd (update quiet_lib props_A (snd (snd ?r))))) = []"
    by blast
  from customKeyEventHandler_fixed_at_construction[OF e, of props_B] o u v
  have 2: "filter is_attach (fst (snd (update quiet_lib props_B (snd (snd ?r)))))
     = [AttachCustomKeyEventHandler 1 (Fn 4)]"
    by simp
  from 1 2 show ?thesis by blast
qed

text \<open>
  Claim C10. In every commit (the mount when \<open>first\<close> holds, a later render otherwise,
  from any state whatever) a call of \<open>onInit\<close> has a callee that is a function, namely the
  \<open>onInit\<close> prop of this render, and an argument that is not null: it is the terminal that
  \<open>xtermRef\<close> holds when the commit ends.
\<close>

theorem onInit_only_with_live_instance:
  assumes "commit l p first st = (r, acts, st')" and "CallOnInit c v \<in> set acts"
  shows "is_function c \<and> c = onInit p \<and> v \<noteq> None \<and> v = xtermRef st'"
  using commit_init_call[OF assms] by blast

theorem onInit_only_with_live_instance_witness:
  "CallOnInit (Fn 2) (Some 0) \<in> set (fst (snd (mount quiet_lib props_A)))
   \<and> is_function (Fn 2) \<and> Fn 2 = onInit props_A
   \<and> xtermRef (snd (snd (mount quiet_lib props_A))) = Some 0"
proof -
  let ?m = "commit quiet_lib props_A True (initial\<lparr>divRef := True\<rparr>)"
  have e: "?m = (fst ?m, fst (snd ?m), snd (snd ?m))" by simp
  have i: "CallOnInit (Fn 2) (Some 0) \<in> set (fst (snd ?m))" by code_simp
  from onInit_only_with_live_instance[OF e i] i show ?thesis
    unfolding mount_def by metis
qed

end
